theory Spec2Isabelle
  imports Main "HOL-Library.AList" "HOL-Library.Char_ord" "HOL-Library.List_Lexorder"
begin

section \<open>JavaScript strings and regular expressions\<close>

text \<open>
  Header values and paths are JavaScript strings; Node decodes header bytes as latin-1, so
  one \<^typ>\<open>char\<close> is one UTF-16 code unit and \<^const>\<open>length\<close> is the string's
  \<^verbatim>\<open>.length\<close>. A string is truthy when it is not empty.
\<close>

definition truthy :: "string \<Rightarrow> bool" where
  "truthy s = (s \<noteq> [])"

text \<open>
  Every regular expression of \<^verbatim>\<open>botDetection.js\<close> is an alternation of literals with
  the \<^verbatim>\<open>i\<close> flag. The literals are ASCII, so ignoring case is comparing after
  mapping \<^verbatim>\<open>A-Z\<close> to \<^verbatim>\<open>a-z\<close>.
\<close>

definition toLowerAscii :: "char \<Rightarrow> char" where
  "toLowerAscii c =
     (let n = (of_char c :: nat) in if 65 \<le> n \<and> n \<le> 90 then char_of (n + 32) else c)"

text \<open>
  A RegExp object: its literal alternatives (in lower case), its \<^verbatim>\<open>g\<close> flag, and the
  one mutable property \<^verbatim>\<open>lastIndex\<close>.
\<close>

record regexp =
  alternatives :: "string list"
  global :: bool
  lastIndex :: nat

definition matchesAt :: "string \<Rightarrow> string \<Rightarrow> bool" where
  "matchesAt lit s = (take (length lit) (map toLowerAscii s) = lit)"

text \<open>The first alternative, in the pattern's order, that matches at the head of the input.\<close>

fun firstAlt :: "string list \<Rightarrow> string \<Rightarrow> nat option" where
  "firstAlt [] s = None"
| "firstAlt (a # as) s = (if matchesAt a s then Some (length a) else firstAlt as s)"

text \<open>The leftmost match in the input, whose first character has index \<open>i\<close>: (start, end).\<close>

fun search :: "string list \<Rightarrow> string \<Rightarrow> nat \<Rightarrow> (nat \<times> nat) option" where
  "search alts [] i = (case firstAlt alts [] of Some n \<Rightarrow> Some (i, i + n) | None \<Rightarrow> None)"
| "search alts (c # cs) i =
     (case firstAlt alts (c # cs) of Some n \<Rightarrow> Some (i, i + n) | None \<Rightarrow> search alts cs (Suc i))"

text \<open>
  \<^verbatim>\<open>RegExp.prototype.exec\<close>: a global expression starts at \<^verbatim>\<open>lastIndex\<close> and writes
  it back (the end of the match, or 0 on failure); any other starts at 0 and leaves the
  object as it is.
\<close>

definition exec :: "regexp \<Rightarrow> string \<Rightarrow> (nat \<times> nat) option \<times> regexp" where
  "exec r s =
     (let start = (if global r then lastIndex r else 0) in
      if length s < start then (None, if global r then r\<lparr>lastIndex := 0\<rparr> else r)
      else (case search (alternatives r) (drop start s) start of
              None \<Rightarrow> (None, if global r then r\<lparr>lastIndex := 0\<rparr> else r)
            | Some (b, e) \<Rightarrow> (Some (b, e), if global r then r\<lparr>lastIndex := e\<rparr> else r)))"

text \<open>\<^verbatim>\<open>pattern.test(s)\<close>.\<close>

definition test :: "regexp \<Rightarrow> string \<Rightarrow> bool \<times> regexp" where
  "test r s = (case exec r s of (m, r') \<Rightarrow> (m \<noteq> None, r'))"

text \<open>\<^verbatim>\<open>s.match(pattern)?.[0]\<close> for an expression that is not global: the matched text.\<close>

definition match0 :: "regexp \<Rightarrow> string \<Rightarrow> string option \<times> regexp" where
  "match0 r s =
     (case exec r s of
        (None, r') \<Rightarrow> (None, r')
      | (Some (b, e), r') \<Rightarrow> (Some (take (e - b) (drop b s)), r'))"

text \<open>A regular expression literal \<^verbatim>\<open>/a|b|c/i\<close>.\<close>

definition literal_i :: "string list \<Rightarrow> regexp" where
  "literal_i alts = \<lparr>alternatives = alts, global = False, lastIndex = 0\<rparr>"

section \<open>Bot detection middleware: \<^verbatim>\<open>backend/middleware/botDetection.js\<close>\<close>

subsection \<open>Constants of the module\<close>

definition BOT_USER_AGENTS :: "regexp list" where
  "BOT_USER_AGENTS = map (\<lambda>t. literal_i [t])
     [''bot'', ''spider'', ''crawl'', ''scrape'', ''curl'', ''wget'', ''python-requests'',
      ''java/'', ''perl'', ''ruby'', ''phantomjs'', ''headless'', ''selenium'', ''puppeteer'']"

definition GOOD_BOTS :: "regexp list" where
  "GOOD_BOTS = map (\<lambda>t. literal_i [t])
     [''googlebot'', ''bingbot'', ''slurp'', ''duckduckbot'', ''baiduspider'', ''yandexbot'',
      ''facebookexternalhit'', ''twitterbot'', ''linkedinbot'']"

definition rapidRequests :: nat where
  "rapidRequests = 20"

definition suspiciousHeaders :: "string list" where
  "suspiciousHeaders = [''x-forwarded-host'', ''x-original-url'', ''x-rewrite-url'']"

definition BLOCK_DURATION :: int where
  "BLOCK_DURATION = 300000"

subsection \<open>Requests, verdicts and the module's state\<close>

text \<open>
  The part of an Express request the middleware reads. \<^verbatim>\<open>req.headers[h] || ''\<close> is
  \<open>header req h\<close>: a header that is absent reads as the empty string.
\<close>

record request =
  ip :: "string option"
  headers :: "string \<rightharpoonup> string"
  path :: string

definition header :: "request \<Rightarrow> string \<Rightarrow> string" where
  "header req h = (case headers req h of None \<Rightarrow> [] | Some v \<Rightarrow> v)"

text \<open>\<^verbatim>\<open>req.ip || req.headers['x-forwarded-for'] || 'unknown'\<close>\<close>

definition clientIp :: "request \<Rightarrow> string" where
  "clientIp req =
     (let fallback = (if truthy (header req ''x-forwarded-for'')
                      then header req ''x-forwarded-for'' else ''unknown'')
      in case ip req of None \<Rightarrow> fallback | Some a \<Rightarrow> if truthy a then a else fallback)"

definition startsWith :: "string \<Rightarrow> string \<Rightarrow> bool" where
  "startsWith s p = (take (length p) s = p)"

datatype botType = Good | Bad | Unknown

record botInfo =
  isBot :: bool
  botType :: botType
  suspiciousScore :: nat
  name :: "string option"
  userAgent :: "string option"

record ipData =
  count :: nat
  firstRequest :: int
  lastRequest :: int

text \<open>
  The mutable state of the module: the RegExp objects of the two pattern arrays, the
  \<^verbatim>\<open>Map\<close> of request counters, the \<^verbatim>\<open>Set\<close> of blocked addresses (both in insertion
  order) and the pending \<^verbatim>\<open>setTimeout\<close> callbacks, each the time it is due and the
  address it deletes.
\<close>

record module =
  goodBots :: "regexp list"
  botUserAgents :: "regexp list"
  ipRequestCounts :: "(string \<times> ipData) list"
  blockedIPs :: "string list"
  timers :: "(int \<times> string) list"

definition loaded :: module where
  "loaded = \<lparr>goodBots = GOOD_BOTS, botUserAgents = BOT_USER_AGENTS,
             ipRequestCounts = [], blockedIPs = [], timers = []\<rparr>"

subsection \<open>analyzeBotSignature\<close>

text \<open>
  The loop over \<^verbatim>\<open>GOOD_BOTS\<close>: at the first expression whose \<^verbatim>\<open>test\<close> succeeds the
  function returns, with \<^verbatim>\<open>userAgent.match(pattern)?.[0]\<close> as the name.
\<close>

fun firstGood :: "regexp list \<Rightarrow> string \<Rightarrow> string option option \<times> regexp list" where
  "firstGood [] ua = (None, [])"
| "firstGood (p # ps) ua =
     (case test p ua of
        (True, p') \<Rightarrow> (case match0 p' ua of (nm, p'') \<Rightarrow> (Some nm, p'' # ps))
      | (False, p') \<Rightarrow> (case firstGood ps ua of (r, ps') \<Rightarrow> (r, p' # ps')))"

text \<open>The loop over \<^verbatim>\<open>BOT_USER_AGENTS\<close>, left by \<^verbatim>\<open>break\<close> at the first match.\<close>

fun anyBad :: "regexp list \<Rightarrow> string \<Rightarrow> bool \<times> regexp list" where
  "anyBad [] ua = (False, [])"
| "anyBad (p # ps) ua =
     (case test p ua of
        (True, p') \<Rightarrow> (True, p' # ps)
      | (False, p') \<Rightarrow> (case anyBad ps ua of (r, ps') \<Rightarrow> (r, p' # ps')))"

definition browserSignature :: regexp where
  "browserSignature =
     literal_i [''mozilla'', ''chrome'', ''safari'', ''firefox'', ''edge'', ''opera'']"

definition analyzeBotSignature :: "module \<Rightarrow> request \<Rightarrow> botInfo \<times> module" where
  "analyzeBotSignature m req =
     (let ua = header req ''user-agent'';
          referer = header req ''referer'';
          score0 = (if \<not> truthy ua then 3 else 0)
      in case firstGood (goodBots m) ua of
           (Some nm, gs) \<Rightarrow>
             (\<lparr>isBot = True, botType = Good, suspiciousScore = 0, name = nm, userAgent = None\<rparr>,
              m\<lparr>goodBots := gs\<rparr>)
         | (None, gs) \<Rightarrow>
             (case anyBad (botUserAgents m) ua of
                (isbad, bs) \<Rightarrow>
                  (let score1 = score0 + (if isbad then 5 else 0);
                       score2 = score1 +
                         (if \<not> truthy referer \<and> \<not> startsWith (path req) ''/api/'' then 1 else 0);
                       score3 = score2 +
                         2 * length (filter (\<lambda>h. truthy (header req h)) suspiciousHeaders);
                       score4 = score3 + (if length ua < 20 then 2 else 0);
                       hasBrowserSignature = fst (test browserSignature ua);
                       score5 = score4 + (if \<not> hasBrowserSignature \<and> truthy ua then 2 else 0)
                   in (\<lparr>isBot = isbad, botType = (if isbad then Bad else Unknown),
                        suspiciousScore = score5, name = None, userAgent = Some (take 100 ua)\<rparr>,
                       m\<lparr>goodBots := gs, botUserAgents := bs\<rparr>))))"

subsection \<open>The block list and its timers\<close>

text \<open>\<^verbatim>\<open>Set.prototype.add\<close> and \<^verbatim>\<open>delete\<close> on a set kept in insertion order.\<close>

definition setAdd :: "string \<Rightarrow> string list \<Rightarrow> string list" where
  "setAdd x xs = (if x \<in> set xs then xs else xs @ [x])"

definition setDelete :: "string \<Rightarrow> string list \<Rightarrow> string list" where
  "setDelete x xs = removeAll x xs"

text \<open>
  \<^verbatim>\<open>setTimeout(f, d)\<close> in Node: a delay below 1 or above \<open>2\<^sup>3\<^sup>1 - 1\<close> is replaced by 1.
\<close>

definition timerDelay :: "int \<Rightarrow> int" where
  "timerDelay d = (if 1 \<le> d \<and> d \<le> 2147483647 then d else 1)"

definition blockIP :: "string \<Rightarrow> int \<Rightarrow> module \<Rightarrow> module" where
  "blockIP a now m =
     m\<lparr>blockedIPs := setAdd a (blockedIPs m),
       timers := timers m @ [(now + timerDelay BLOCK_DURATION, a)]\<rparr>"

text \<open>
  \<^verbatim>\<open>manualBlockIP(ip, duration)\<close>; the route \<^verbatim>\<open>POST /api/security/block\<close> passes
  \<^verbatim>\<open>duration || 300000\<close>.
\<close>

definition manualBlockIP :: "string \<Rightarrow> int \<Rightarrow> int \<Rightarrow> module \<Rightarrow> module" where
  "manualBlockIP a duration now m =
     m\<lparr>blockedIPs := setAdd a (blockedIPs m),
       timers := timers m @ [(now + timerDelay duration, a)]\<rparr>"

definition unblockIP :: "string \<Rightarrow> module \<Rightarrow> module" where
  "unblockIP a m = m\<lparr>blockedIPs := setDelete a (blockedIPs m)\<rparr>"

definition getBlockedIPs :: "module \<Rightarrow> string list" where
  "getBlockedIPs m = blockedIPs m"

definition isBlocked :: "string \<Rightarrow> module \<Rightarrow> bool" where
  "isBlocked a m = (a \<in> set (blockedIPs m))"

text \<open>
  The clock reaches \<open>now\<close>: every callback that is due runs, in the order the timers were
  set, and each deletes its address from the set. (The module also sweeps
  \<^verbatim>\<open>ipRequestCounts\<close> once a minute; it removes only counters that have been idle for a
  minute, which the next request of the address would start afresh in any case.)
\<close>

definition runTimers :: "int \<Rightarrow> module \<Rightarrow> module" where
  "runTimers now m =
     fold (\<lambda>(t, a) m'. m'\<lparr>blockedIPs := setDelete a (blockedIPs m')\<rparr>)
          (filter (\<lambda>(t, a). t \<le> now) (timers m))
          (m\<lparr>timers := filter (\<lambda>(t, a). \<not> t \<le> now) (timers m)\<rparr>)"

subsection \<open>botDetection\<close>

text \<open>
  What the server answers: a rejection with its status, its \<^verbatim>\<open>error\<close> text and its
  \<^verbatim>\<open>retryAfter\<close>, or the empty answer 204 to a preflight request.
\<close>

datatype response = Rejected nat string "nat option" | NoContent

datatype outcome = Respond response | Next botInfo

definition botDetection :: "module \<Rightarrow> int \<Rightarrow> request \<Rightarrow> outcome \<times> module" where
  "botDetection m now req =
     (let a = clientIp req in
      if a \<in> set (blockedIPs m)
      then (Respond (Rejected 403 ''Access temporarily blocked'' (Some 300)), m)
      else
        (let d0 = (case map_of (ipRequestCounts m) a of
                     None \<Rightarrow> \<lparr>count = 0, firstRequest = now, lastRequest = now\<rparr>
                   | Some d \<Rightarrow> d);
             d1 = d0\<lparr>count := count d0 + 1, lastRequest := now\<rparr>
         in if now - firstRequest d1 < 10000 \<and> rapidRequests < count d1
            then (Respond (Rejected 429 ''Too many requests. Please slow down.'' (Some 60)),
                  blockIP a now (m\<lparr>ipRequestCounts := AList.update a d1 (ipRequestCounts m)\<rparr>))
            else
              (let d2 = (if 10000 < now - firstRequest d1
                         then d1\<lparr>count := 1, firstRequest := now\<rparr> else d1);
                   m1 = m\<lparr>ipRequestCounts := AList.update a d2 (ipRequestCounts m)\<rparr>
               in case analyzeBotSignature m1 req of
                    (info, m2) \<Rightarrow>
                      if isBot info \<and> botType info = Bad
                      then (Respond (Rejected 403 ''Automated access not allowed'' None), m2)
                      else (Next info, m2))))"

section \<open>The error handler: \<^verbatim>\<open>backend/middleware/errorHandler.js\<close>\<close>

text \<open>
  The properties of an error that the handler reads; a text that is absent is empty.
  \<open>production\<close> says that \<^verbatim>\<open>NODE_ENV\<close> is \<^verbatim>\<open>'production'\<close>. The field
  \<^verbatim>\<open>details\<close> of the answer to a validation error is left out.
\<close>

record httpError =
  errType :: string
  errName :: string
  errStatus :: "nat option"
  errCode :: string
  errMessage :: string
  errRetryAfter :: "nat option"

definition errorHandler :: "bool \<Rightarrow> httpError \<Rightarrow> response" where
  "errorHandler production err =
     (if errType err = ''validation'' then Rejected 400 ''Validation error'' None
      else if errName err = ''UnauthorizedError'' \<or> errStatus err = Some 401
      then Rejected 401 ''Unauthorized access'' None
      else if errStatus err = Some 429
      then Rejected 429 ''Too many requests''
             (Some (case errRetryAfter err of None \<Rightarrow> 60 | Some n \<Rightarrow> if n = 0 then 60 else n))
      else if errCode err = ''LIMIT_FILE_SIZE'' then Rejected 413 ''File too large'' None
      else Rejected (case errStatus err of None \<Rightarrow> 500 | Some n \<Rightarrow> if n = 0 then 500 else n)
             (if production then ''Internal server error'' else errMessage err) None)"

section \<open>The request pipeline: \<^verbatim>\<open>backend/server.js\<close>\<close>

text \<open>
  The middleware of \<^verbatim>\<open>server.js\<close> in the order of its registration, as far as it can end
  a request before the routes:
  \<^item> \<^verbatim>\<open>cors\<close> answers every \<^verbatim>\<open>OPTIONS\<close> request itself, with status 204, since
    \<^verbatim>\<open>preflightContinue\<close> is not set; every other request goes on.
  \<^item> \<^verbatim>\<open>globalLimiter\<close>, keyed by the address of the client. When its verdict is negative
    it answers with status 429 and the configured \<^verbatim>\<open>message\<close>.
  \<^item> The body parsers \<^verbatim>\<open>express.json\<close> and \<^verbatim>\<open>express.urlencoded\<close>. When they fail on
    the body they pass an error to \<^verbatim>\<open>next\<close>; Express then skips all middleware up to
    \<^verbatim>\<open>errorHandler\<close>, which answers.
  \<^item> \<^verbatim>\<open>botDetection\<close>.

  \<^verbatim>\<open>helmet\<close>, \<^verbatim>\<open>morgan\<close> and \<^verbatim>\<open>requestLogger\<close> end no request. The packages
  \<^verbatim>\<open>cors\<close>, \<^verbatim>\<open>express-rate-limit\<close> and the body parsers are third-party code: the
  limiter is a parameter of the pipeline, a function from its store, the key of the
  request and the clock to its verdict and its new store, and what the body parsers make
  of the body comes with the request.
\<close>

type_synonym 'l limiter = "'l \<Rightarrow> string \<Rightarrow> int \<Rightarrow> bool \<times> 'l"

text \<open>
  An inbound request: \<^verbatim>\<open>req.method\<close> (Node passes on upper-case methods only), the
  error the body parsers raise on its body, if any, and what \<^verbatim>\<open>botDetection\<close> reads.
\<close>

record inbound =
  httpMethod :: string
  bodyError :: "httpError option"
  metadata :: request

definition handleRequest ::
  "bool \<Rightarrow> 'l limiter \<Rightarrow> 'l \<times> module \<Rightarrow> int \<Rightarrow> inbound \<Rightarrow> outcome \<times> ('l \<times> module)" where
  "handleRequest production limiter st now inb =
     (case st of
        (l, m) \<Rightarrow>
          if httpMethod inb = ''OPTIONS'' then (Respond NoContent, (l, m))
          else
            (case limiter l (clientIp (metadata inb)) now of
               (False, l') \<Rightarrow>
                 (Respond (Rejected 429 ''Too many requests, please try again later.'' (Some 60)),
                  (l', m))
             | (True, l') \<Rightarrow>
                 (case bodyError inb of
                    Some err \<Rightarrow> (Respond (errorHandler production err), (l', m))
                  | None \<Rightarrow>
                      (case botDetection m now (metadata inb) of
                         (out, m') \<Rightarrow> (out, (l', m'))))))"

text \<open>
  The package's memory store as its documentation describes it: one hit counter per key,
  started afresh once its window of \<open>windowMs\<close> is over; hit number \<open>max + 1\<close> of a
  window and every later one are refused.
\<close>

record hits =
  totalHits :: nat
  resetTime :: int

definition rateLimit :: "int \<Rightarrow> nat \<Rightarrow> (string \<times> hits) list limiter" where
  "rateLimit windowMs maxHits store key now =
     (let fresh = \<lparr>totalHits = 0, resetTime = now + windowMs\<rparr>;
          h0 = (case map_of store key of
                  None \<Rightarrow> fresh
                | Some h \<Rightarrow> if resetTime h \<le> now then fresh else h);
          h1 = h0\<lparr>totalHits := totalHits h0 + 1\<rparr>
      in (totalHits h1 \<le> maxHits, AList.update key h1 store))"

text \<open>The configuration of \<^verbatim>\<open>server.js\<close> when the environment sets neither variable.\<close>

definition globalLimiter :: "(string \<times> hits) list limiter" where
  "globalLimiter = rateLimit 60000 100"

text \<open>
  A run of the server: each request arrives at its time, the timers that are due run first.
\<close>

fun serve ::
  "bool \<Rightarrow> 'l limiter \<Rightarrow> 'l \<times> module \<Rightarrow> (int \<times> inbound) list \<Rightarrow> 'l \<times> module" where
  "serve production limiter st [] = st"
| "serve production limiter st ((now, inb) # rest) =
     serve production limiter
       (snd (handleRequest production limiter (fst st, runTimers now (snd st)) now inb)) rest"

section \<open>The browser's rate limiter: \<^verbatim>\<open>js/security.js\<close>\<close>

text \<open>\<^verbatim>\<open>SecurityConfig\<close>; its \<^verbatim>\<open>BLOCK_DURATION\<close> is a constant of its own.\<close>

definition RATE_LIMIT_WINDOW :: int where
  "RATE_LIMIT_WINDOW = 60000"

definition MAX_REQUESTS_PER_WINDOW :: nat where
  "MAX_REQUESTS_PER_WINDOW = 30"

definition SecurityConfig_BLOCK_DURATION :: int where
  "SecurityConfig_BLOCK_DURATION = 300000"

text \<open>
  The object \<^verbatim>\<open>RateLimiter\<close>: the times of the recorded requests, oldest first, and the
  block. There is one such object in a page, so the only key is the page itself.
\<close>

record rateLimiter =
  requests :: "int list"
  blocked :: bool
  blockedUntil :: "int option"

definition RateLimiter :: rateLimiter where
  "RateLimiter = \<lparr>requests = [], blocked = False, blockedUntil = None\<rparr>"

text \<open>
  The object \<^verbatim>\<open>checkLimit\<close> returns: \<^verbatim>\<open>{allowed: true, remaining}\<close> or
  \<^verbatim>\<open>{allowed: false, reason, retryAfter}\<close>.
\<close>

datatype limitResult = Allowed int | Denied string int

fun allowed :: "limitResult \<Rightarrow> bool" where
  "allowed (Allowed remaining) = True"
| "allowed (Denied reason retryAfter) = False"

text \<open>
  \<^verbatim>\<open>Math.ceil(x / 1000)\<close> on an integer number of milliseconds (the quotient of two such
  doubles is never rounded across an integer).
\<close>

definition ceilSeconds :: "int \<Rightarrow> int" where
  "ceilSeconds x = - ((- x) div 1000)"

text \<open>
  \<^verbatim>\<open>checkLimit\<close> at the time \<open>now\<close> that \<^verbatim>\<open>Date.now()\<close> returns. In the comparison
  \<^verbatim>\<open>now < this.blockedUntil\<close> a \<^verbatim>\<open>null\<close> counts as 0. The call of
  \<^verbatim>\<open>Security.logSecurityEvent\<close> writes the security log only, which is no part of the
  limiter.
\<close>

definition checkLimit :: "int \<Rightarrow> rateLimiter \<Rightarrow> limitResult \<times> rateLimiter" where
  "checkLimit now r =
     (let until = (case blockedUntil r of None \<Rightarrow> 0 | Some t \<Rightarrow> t) in
      if blocked r \<and> now < until
      then (Denied ''blocked'' (ceilSeconds (until - now)), r)
      else
        (let r1 = (if blocked r
                   then r\<lparr>requests := [], blocked := False, blockedUntil := None\<rparr> else r);
             r2 = r1\<lparr>requests := filter (\<lambda>time. now - time < RATE_LIMIT_WINDOW) (requests r1)\<rparr>
         in if MAX_REQUESTS_PER_WINDOW \<le> length (requests r2)
            then (Denied ''rate_limited'' (ceilSeconds SecurityConfig_BLOCK_DURATION),
                  r2\<lparr>blocked := True,
                     blockedUntil := Some (now + SecurityConfig_BLOCK_DURATION)\<rparr>)
            else
              (let r3 = r2\<lparr>requests := requests r2 @ [now]\<rparr>
               in (Allowed (int MAX_REQUESTS_PER_WINDOW - int (length (requests r3))), r3))))"

text \<open>Successive checks, each at its own time.\<close>

fun checks :: "int list \<Rightarrow> rateLimiter \<Rightarrow> limitResult list \<times> rateLimiter" where
  "checks [] r = ([], r)"
| "checks (t # ts) r =
     (case checkLimit t r of
        (res, r') \<Rightarrow> (case checks ts r' of (rs, r'') \<Rightarrow> (res # rs, r'')))"

section \<open>The request log: \<^verbatim>\<open>requestLogger.js\<close> and \<^verbatim>\<open>routes/security.js\<close>\<close>

text \<open>
  An entry of \<^verbatim>\<open>requestLogs\<close>, pushed when the response has finished. The time stamp is
  kept in milliseconds; the fields \<^verbatim>\<open>method\<close>, \<^verbatim>\<open>path\<close> and \<^verbatim>\<open>ip\<close> of the entry are
  named \<open>logMethod\<close>, \<open>logPath\<close> and \<open>logIp\<close> here.
\<close>

record logEntry =
  timestamp :: int
  logMethod :: string
  logPath :: string
  logIp :: string
  statusCode :: nat
  responseTime :: int

definition MAX_LOGS :: nat where
  "MAX_LOGS = 10000"

text \<open>\<^verbatim>\<open>requestLogs.push(logEntry)\<close>, then \<^verbatim>\<open>shift()\<close> when the buffer is over its capacity.\<close>

definition pushLog :: "logEntry \<Rightarrow> logEntry list \<Rightarrow> logEntry list" where
  "pushLog e logs = (let logs' = logs @ [e] in if MAX_LOGS < length logs' then tl logs' else logs')"

text \<open>\<^verbatim>\<open>Array.prototype.slice(start)\<close>: a negative start counts from the end.\<close>

definition slice :: "int \<Rightarrow> 'a list \<Rightarrow> 'a list" where
  "slice start xs =
     (let n = int (length xs);
          k = (if start < 0 then max (n + start) 0 else min start n)
      in drop (nat k) xs)"

definition getRecentLogs :: "int \<Rightarrow> logEntry list \<Rightarrow> logEntry list" where
  "getRecentLogs limit logs = rev (slice (- limit) logs)"

text \<open>The fields \<^verbatim>\<open>suspiciousRequests\<close> and \<^verbatim>\<open>status\<close> of \<^verbatim>\<open>GET /api/security/status\<close>.\<close>

definition suspiciousCount :: "logEntry list \<Rightarrow> nat" where
  "suspiciousCount logs =
     length (filter (\<lambda>log. statusCode log = 403 \<or> statusCode log = 429) (getRecentLogs 20 logs))"

definition securityStatus :: "logEntry list \<Rightarrow> string" where
  "securityStatus logs = (if 5 < suspiciousCount logs then ''warning'' else ''secure'')"

section \<open>The analytics store: \<^verbatim>\<open>backend/routes/analytics.js\<close>\<close>

subsection \<open>Data\<close>

text \<open>
  Objects keyed by strings are association lists in the order the keys were inserted
  (the keys are dates, paths and tool names, none of them a name that JavaScript orders
  or resolves in a way of its own, such as an array index or \<^verbatim>\<open>__proto__\<close>).
  The counters are JavaScript numbers holding integers. The field \<^verbatim>\<open>uniqueVisitors\<close>
  of a day is \<open>dayVisitors\<close> here, since the store has a property of the same name.
\<close>

record dailyStat =
  pageViews :: int
  toolUses :: int
  dayVisitors :: int
  filesProcessed :: int
  bytesProcessed :: int
  errors :: int
  pages :: "(string \<times> int) list"
  tools :: "(string \<times> int) list"

text \<open>
  What the property \<^verbatim>\<open>uniqueVisitors\<close> of the store can hold: a \<^verbatim>\<open>Set\<close> (in memory
  only, in insertion order), an array, the empty object \<^verbatim>\<open>{}\<close>, or nothing.
\<close>

datatype visitors = VisitorSet "string list" | VisitorArray "string list" | EmptyObject | Missing

text \<open>
  The store. Its properties \<^verbatim>\<open>pageViews\<close> and \<^verbatim>\<open>sessions\<close> are written empty when the
  file is created and never read or changed; they are left out.
\<close>

record analytics =
  created :: string
  dailyStats :: "(string \<times> dailyStat) list"
  toolUsage :: "(string \<times> int) list"
  totalPageViews :: int
  totalToolUses :: int
  uniqueVisitors :: visitors

text \<open>
  \<^verbatim>\<open>JSON.parse(JSON.stringify(data))\<close>: a \<^verbatim>\<open>Set\<close> has no enumerable property of its own
  and is written as \<^verbatim>\<open>{}\<close>; everything else in the store comes back as it was.
\<close>

definition throughJSON :: "analytics \<Rightarrow> analytics" where
  "throughJSON data =
     (case uniqueVisitors data of
        VisitorSet vs \<Rightarrow> data\<lparr>uniqueVisitors := EmptyObject\<rparr>
      | _ \<Rightarrow> data)"

text \<open>The file \<^verbatim>\<open>analytics.json\<close>: absent, text that is not JSON, or a document.\<close>

datatype analyticsFile = NoFile | Unparsable | Document analytics

datatype error = ENOENT | SyntaxError

text \<open>\<^verbatim>\<open>JSON.parse(fs.readFileSync(ANALYTICS_FILE, 'utf8'))\<close>\<close>

definition readDocument :: "analyticsFile \<Rightarrow> error + analytics" where
  "readDocument f =
     (case f of NoFile \<Rightarrow> Inl ENOENT | Unparsable \<Rightarrow> Inl SyntaxError | Document d \<Rightarrow> Inr d)"

subsection \<open>Reading and writing\<close>

definition saveAnalytics :: "analytics \<Rightarrow> analyticsFile" where
  "saveAnalytics data =
     (let toSave = (case uniqueVisitors data of
                      VisitorSet vs \<Rightarrow> data\<lparr>uniqueVisitors := VisitorArray vs\<rparr>
                    | _ \<Rightarrow> data)
      in Document (throughJSON toSave))"

text \<open>\<open>clock\<close> is \<^verbatim>\<open>new Date().toISOString()\<close>.\<close>

definition initialData :: "string \<Rightarrow> analytics" where
  "initialData clock =
     \<lparr>created = clock, dailyStats = [], toolUsage = [], totalPageViews = 0, totalToolUses = 0,
      uniqueVisitors = VisitorSet []\<rparr>"

definition initAnalyticsFile :: "string \<Rightarrow> analyticsFile \<Rightarrow> analyticsFile" where
  "initAnalyticsFile clock f = (case f of NoFile \<Rightarrow> saveAnalytics (initialData clock) | _ \<Rightarrow> f)"

text \<open>\<^verbatim>\<open>new Set(array)\<close>: the elements in the order of their first occurrence.\<close>

definition newSet :: "string list \<Rightarrow> string list" where
  "newSet xs = fold setAdd xs []"

text \<open>
  \<^verbatim>\<open>getAnalytics\<close>: the value returned or the exception thrown, and the file afterwards.
  The \<^verbatim>\<open>catch\<close> block calls \<^verbatim>\<open>initAnalyticsFile\<close> and reads again; an exception of that
  second read leaves the function.
\<close>

definition getAnalytics :: "string \<Rightarrow> analyticsFile \<Rightarrow> (error + analytics) \<times> analyticsFile" where
  "getAnalytics clock f =
     (case readDocument f of
        Inr data \<Rightarrow>
          (Inr (case uniqueVisitors data of
                  VisitorArray vs \<Rightarrow> data\<lparr>uniqueVisitors := VisitorSet (newSet vs)\<rparr>
                | _ \<Rightarrow> data),
           f)
      | Inl err \<Rightarrow> (let f' = initAnalyticsFile clock f in (readDocument f', f')))"

subsection \<open>Tracking events: \<^verbatim>\<open>POST /api/analytics/track\<close>\<close>

definition emptyDay :: dailyStat where
  "emptyDay = \<lparr>pageViews = 0, toolUses = 0, dayVisitors = 0, filesProcessed = 0,
               bytesProcessed = 0, errors = 0, pages = [], tools = []\<rparr>"

text \<open>
  \<^verbatim>\<open>getTodayKey()\<close> is the date part of \<^verbatim>\<open>new Date().toISOString()\<close>: for the day \<open>d\<close> of
  the month \<open>m\<close> of the year \<open>y\<close> (from 0 to 9999) the text \<^verbatim>\<open>YYYY-MM-DD\<close>. The handlers
  below take the key as their argument \<open>today\<close>.
\<close>

definition digit :: "nat \<Rightarrow> char" where
  "digit n = char_of (48 + n)"

definition pad2 :: "nat \<Rightarrow> string" where
  "pad2 n = [digit (n div 10), digit (n mod 10)]"

definition getTodayKey :: "nat \<Rightarrow> nat \<Rightarrow> nat \<Rightarrow> string" where
  "getTodayKey y m d = pad2 (y div 100) @ pad2 (y mod 100) @ ''-'' @ pad2 m @ ''-'' @ pad2 d"

definition ensureTodayStats :: "string \<Rightarrow> analytics \<Rightarrow> analytics" where
  "ensureTodayStats today data =
     (case map_of (dailyStats data) today of
        None \<Rightarrow> data\<lparr>dailyStats := dailyStats data @ [(today, emptyDay)]\<rparr>
      | Some d \<Rightarrow> data)"

text \<open>
  The event of a request body with the part of \<^verbatim>\<open>data\<close> its case reads: the page, the
  tool, the size. Any other event name changes nothing.
\<close>

datatype event =
  Pageview "string option"
| ToolUse "string option"
| FileProcessed "int option"
| ErrorEvent
| SessionStart
| OtherEvent

text \<open>\<^verbatim>\<open>if (!obj[k]) obj[k] = 0; obj[k]++\<close>\<close>

definition increment :: "string \<Rightarrow> (string \<times> int) list \<Rightarrow> (string \<times> int) list" where
  "increment k obj = AList.update k ((case map_of obj k of None \<Rightarrow> 0 | Some c \<Rightarrow> c) + 1) obj"

text \<open>An update of \<^verbatim>\<open>analytics.dailyStats[today]\<close>.\<close>

definition onDay :: "string \<Rightarrow> (dailyStat \<Rightarrow> dailyStat) \<Rightarrow> analytics \<Rightarrow> analytics" where
  "onDay today g data = data\<lparr>dailyStats := AList.map_entry today g (dailyStats data)\<rparr>"

text \<open>\<^verbatim>\<open>x || dflt\<close> for a string that may be absent.\<close>

definition orElse :: "string option \<Rightarrow> string \<Rightarrow> string" where
  "orElse x dflt = (case x of None \<Rightarrow> dflt | Some s \<Rightarrow> if truthy s then s else dflt)"

definition applyEvent :: "string \<Rightarrow> string \<Rightarrow> event \<Rightarrow> analytics \<Rightarrow> analytics" where
  "applyEvent today visitorId ev data =
     (case ev of
        Pageview page \<Rightarrow>
          (onDay today (\<lambda>d. d\<lparr>pageViews := pageViews d + 1,
                              pages := increment (orElse page ''/'') (pages d)\<rparr>) data)
            \<lparr>totalPageViews := totalPageViews data + 1\<rparr>
      | ToolUse tool \<Rightarrow>
          (onDay today (\<lambda>d. d\<lparr>toolUses := toolUses d + 1,
                              tools := increment (orElse tool ''unknown'') (tools d)\<rparr>) data)
            \<lparr>totalToolUses := totalToolUses data + 1,
             toolUsage := increment (orElse tool ''unknown'') (toolUsage data)\<rparr>
      | FileProcessed bytes \<Rightarrow>
          onDay today (\<lambda>d. d\<lparr>filesProcessed := filesProcessed d + 1,
                             bytesProcessed := bytesProcessed d
                               + (case bytes of None \<Rightarrow> 0 | Some n \<Rightarrow> n)\<rparr>) data
      | ErrorEvent \<Rightarrow> onDay today (\<lambda>d. d\<lparr>errors := errors d + 1\<rparr>) data
      | SessionStart \<Rightarrow>
          (let data1 = (case uniqueVisitors data of
                          Missing \<Rightarrow> data\<lparr>uniqueVisitors := VisitorSet []\<rparr>
                        | _ \<Rightarrow> data)
           in case uniqueVisitors data1 of
                VisitorSet vs \<Rightarrow>
                  (let wasNew = (visitorId \<notin> set vs);
                       data2 = data1\<lparr>uniqueVisitors := VisitorSet (setAdd visitorId vs)\<rparr>
                   in if wasNew
                      then onDay today (\<lambda>d. d\<lparr>dayVisitors := dayVisitors d + 1\<rparr>) data2
                      else data2)
              | _ \<Rightarrow> data1)
      | OtherEvent \<Rightarrow> data)"

text \<open>The handler: the exception that leaves it, if any, and the file afterwards.\<close>

definition track ::
  "string \<Rightarrow> string \<Rightarrow> string \<Rightarrow> event \<Rightarrow> analyticsFile \<Rightarrow> error option \<times> analyticsFile" where
  "track clock today visitorId ev f =
     (case getAnalytics clock f of
        (Inl err, f') \<Rightarrow> (Some err, f')
      | (Inr data, f') \<Rightarrow>
          (None, saveAnalytics (applyEvent today visitorId ev (ensureTodayStats today data))))"

subsection \<open>Snapshot, export and import\<close>

text \<open>
  \<^verbatim>\<open>Array.isArray(v) ? v.length : v?.size || 0\<close>
\<close>

definition visitorCount :: "visitors \<Rightarrow> nat" where
  "visitorCount v =
     (case v of VisitorArray vs \<Rightarrow> length vs | VisitorSet vs \<Rightarrow> length vs
              | EmptyObject \<Rightarrow> 0 | Missing \<Rightarrow> 0)"

text \<open>
  The answer of \<^verbatim>\<open>GET /api/analytics\<close> without \<^verbatim>\<open>requestStats\<close>, which comes from the
  request log. \<open>today = None\<close> is the default \<^verbatim>\<open>{pageViews: 0, toolUses: 0}\<close>.
\<close>

record snapshot =
  today :: "dailyStat option"
  totalViews :: int
  totalUses :: int
  totalVisitors :: nat
  last7Days :: "int \<times> int \<times> int"
  topTools :: "(string \<times> int) list"
  allDays :: "(string \<times> dailyStat) list"

text \<open>\<open>week\<close> holds the keys of today and the six days before it.\<close>

definition getSnapshot ::
  "string \<Rightarrow> string \<Rightarrow> string list \<Rightarrow> analyticsFile \<Rightarrow> (error + snapshot) \<times> analyticsFile" where
  "getSnapshot clock todayKey week f =
     (case getAnalytics clock f of
        (Inl err, f') \<Rightarrow> (Inl err, f')
      | (Inr data, f') \<Rightarrow>
          (Inr \<lparr>today = map_of (dailyStats data) todayKey,
                totalViews = totalPageViews data,
                totalUses = totalToolUses data,
                totalVisitors = visitorCount (uniqueVisitors data),
                last7Days =
                  fold (\<lambda>key (p, t, n).
                          case map_of (dailyStats data) key of
                            None \<Rightarrow> (p, t, n)
                          | Some d \<Rightarrow> (p + pageViews d, t + toolUses d, n + filesProcessed d))
                       week (0, 0, 0),
                topTools = take 10 (sort_key (\<lambda>(tool, c). - c) (toolUsage data)),
                allDays = dailyStats data\<rparr>,
           f'))"

text \<open>
  \<^verbatim>\<open>GET /export\<close> answers \<^verbatim>\<open>res.json(analytics)\<close>: the document the client receives is
  the store after \<^verbatim>\<open>JSON.stringify\<close>.
\<close>

definition exportAnalytics ::
  "string \<Rightarrow> analyticsFile \<Rightarrow> (error + analytics) \<times> analyticsFile" where
  "exportAnalytics clock f =
     (case getAnalytics clock f of
        (Inl err, f') \<Rightarrow> (Inl err, f')
      | (Inr data, f') \<Rightarrow> (Inr (throughJSON data), f'))"

text \<open>
  \<^verbatim>\<open>POST /import\<close> with \<^verbatim>\<open>req.body.data\<close>: status 400 without a document, else the
  document is saved as it came.
\<close>

definition importAnalytics :: "analytics option \<Rightarrow> analyticsFile \<Rightarrow> nat \<times> analyticsFile" where
  "importAnalytics body f =
     (case body of None \<Rightarrow> (400, f) | Some data \<Rightarrow> (200, saveAnalytics data))"

subsection \<open>The retention sweep: \<^verbatim>\<open>cleanupOldData\<close>\<close>

definition maxDays :: nat where
  "maxDays = 30"

text \<open>
  The loop \<^verbatim>\<open>while (dates.length > maxDays) { delete stats[dates.shift()] }\<close>.
\<close>

fun prune :: "string list \<Rightarrow> (string \<times> dailyStat) list \<Rightarrow> (string \<times> dailyStat) list" where
  "prune [] stats = stats"
| "prune (oldDate # dates) stats =
     (if maxDays < length (oldDate # dates) then prune dates (AList.delete oldDate stats)
      else stats)"

text \<open>
  \<^verbatim>\<open>Object.keys(analytics.dailyStats).sort()\<close> orders the keys as strings, code unit by
  code unit, which is the order of \<^typ>\<open>string\<close>.
\<close>

definition cleanupOldData :: "string \<Rightarrow> analyticsFile \<Rightarrow> error option \<times> analyticsFile" where
  "cleanupOldData clock f =
     (case getAnalytics clock f of
        (Inl err, f') \<Rightarrow> (Some err, f')
      | (Inr data, f') \<Rightarrow>
          (None,
           saveAnalytics
             (data\<lparr>dailyStats := prune (sort (map fst (dailyStats data))) (dailyStats data)\<rparr>)))"

section \<open>Notions used to state the properties\<close>

text \<open>A RegExp object with its \<^verbatim>\<open>lastIndex\<close> put back to 0.\<close>

definition resetIndex :: "regexp \<Rightarrow> regexp" where
  "resetIndex r = r\<lparr>lastIndex := 0\<rparr>"

text \<open>
  The counter of an address says that the request now arriving is a rapid one: the
  address has made at least \<open>rapidRequests\<close> requests since the counter was started, less
  than ten seconds ago.
\<close>

definition rapid :: "module \<Rightarrow> int \<Rightarrow> string \<Rightarrow> bool" where
  "rapid m now a =
     (case map_of (ipRequestCounts m) a of
        None \<Rightarrow> False
      | Some d \<Rightarrow> now - firstRequest d < 10000 \<and> rapidRequests \<le> count d)"

definition badBot :: "module \<Rightarrow> request \<Rightarrow> bool" where
  "badBot m req =
     (isBot (fst (analyzeBotSignature m req)) \<and> botType (fst (analyzeBotSignature m req)) = Bad)"

text \<open>The number of recorded requests that a check at time \<open>t\<close> still counts.\<close>

definition inWindow :: "int \<Rightarrow> rateLimiter \<Rightarrow> nat" where
  "inWindow t r = length (filter (\<lambda>u. t - u < RATE_LIMIT_WINDOW) (requests r))"

text \<open>The daily buckets a file holds.\<close>

definition storedDays :: "analyticsFile \<Rightarrow> (string \<times> dailyStat) list" where
  "storedDays f = (case f of Document d \<Rightarrow> dailyStats d | _ \<Rightarrow> [])"

text \<open>Exporting the store and importing the exported document at once.\<close>

definition roundTrip :: "string \<Rightarrow> analyticsFile \<Rightarrow> analyticsFile" where
  "roundTrip clock f =
     (case exportAnalytics clock f of
        (Inl err, f') \<Rightarrow> f'
      | (Inr doc, f') \<Rightarrow> snd (importAnalytics (Some doc) f'))"

text \<open>The number of unique visitors a snapshot reports.\<close>

definition reportedVisitors ::
  "string \<Rightarrow> string \<Rightarrow> string list \<Rightarrow> analyticsFile \<Rightarrow> error + nat" where
  "reportedVisitors clock todayKey week f =
     (case fst (getSnapshot clock todayKey week f) of
        Inl err \<Rightarrow> Inl err
      | Inr s \<Rightarrow> Inr (totalVisitors s))"

text \<open>
  Example data: a request without headers, the server after the first \<open>n\<close> such
  requests, sent one millisecond apart from its start, and the server at time 500 with
  the sender's address blocked for one second at time 0.
\<close>

definition plainRequest :: inbound where
  "plainRequest =
     \<lparr>httpMethod = ''GET'', bodyError = None,
      metadata = \<lparr>ip = Some ''198.51.100.7'', headers = Map.empty, path = ''/''\<rparr>\<rparr>"

definition afterRequests :: "int \<Rightarrow> (string \<times> hits) list \<times> module" where
  "afterRequests n =
     serve False globalLimiter ([], loaded) (zip [1..n] (replicate (nat n) plainRequest))"

definition manuallyBlocked :: "(string \<times> hits) list \<times> module" where
  "manuallyBlocked = ([], runTimers 500 (manualBlockIP ''198.51.100.7'' 1000 0 loaded))"

text \<open>
  Example data: a store with thirty-five buckets, written in no order. The four days of
  April are empty, the thirty-one days of March have page views.
\<close>

definition exampleStore :: analytics where
  "exampleStore =
     \<lparr>created = ''2024-03-01T00:00:00.000Z'',
      dailyStats =
        map (\<lambda>k. (k, emptyDay))
          [''2024-04-01'', ''2024-04-02'', ''2024-04-03'', ''2024-04-04'']
        @ map (\<lambda>k. (k, emptyDay\<lparr>pageViews := 5\<rparr>))
          [''2024-03-31'', ''2024-03-30'', ''2024-03-29'', ''2024-03-28'', ''2024-03-27'',
           ''2024-03-26'', ''2024-03-25'', ''2024-03-24'', ''2024-03-23'', ''2024-03-22'',
           ''2024-03-21'', ''2024-03-20'', ''2024-03-19'', ''2024-03-18'', ''2024-03-17'',
           ''2024-03-16'', ''2024-03-15'', ''2024-03-14'', ''2024-03-13'', ''2024-03-12'',
           ''2024-03-11'', ''2024-03-10'', ''2024-03-09'', ''2024-03-08'', ''2024-03-07'',
           ''2024-03-06'', ''2024-03-05'', ''2024-03-04'', ''2024-03-03'', ''2024-03-02'',
           ''2024-03-01''],
      toolUsage = [], totalPageViews = 155, totalToolUses = 0,
      uniqueVisitors = VisitorArray []\<rparr>"

section \<open>Properties of the bot classifier\<close>

subsection \<open>Expressions without the \<^verbatim>\<open>g\<close> flag keep no state\<close>

lemma exec_not_global:
  "\<not> global r \<Longrightarrow> exec r s = (search (alternatives r) s 0, r)"
  by (simp add: exec_def split: option.splits)

lemma test_not_global:
  "\<not> global r \<Longrightarrow> test r s = (search (alternatives r) s 0 \<noteq> None, r)"
  by (simp add: test_def exec_not_global)

lemma match0_not_global:
  "\<not> global r \<Longrightarrow>
   match0 r s = (map_option (\<lambda>(b, e). take (e - b) (drop b s)) (search (alternatives r) s 0), r)"
  by (simp add: match0_def exec_not_global split: option.splits)

lemma firstGood_not_global:
  "\<forall>r\<in>set ps. \<not> global r \<Longrightarrow>
   firstGood ps ua = (fst (firstGood (map resetIndex ps) ua), ps)"
proof (induction ps)
  case Nil
  then show ?case by simp
next
  case (Cons p ps)
  then have p: "\<not> global p" "\<not> global (resetIndex p)"
      and a: "alternatives (resetIndex p) = alternatives p"
    by (simp_all add: resetIndex_def)
  from Cons have IH: "firstGood ps ua = (fst (firstGood (map resetIndex ps) ua), ps)"
    by simp
  show ?case
    by (simp add: test_not_global match0_not_global p a IH split: prod.splits bool.splits)
qed

lemma anyBad_not_global:
  "\<forall>r\<in>set ps. \<not> global r \<Longrightarrow>
   anyBad ps ua = (fst (anyBad (map resetIndex ps) ua), ps)"
proof (induction ps)
  case Nil
  then show ?case by simp
next
  case (Cons p ps)
  then have p: "\<not> global p" "\<not> global (resetIndex p)"
      and a: "alternatives (resetIndex p) = alternatives p"
    by (simp_all add: resetIndex_def)
  from Cons have IH: "anyBad ps ua = (fst (anyBad (map resetIndex ps) ua), ps)"
    by simp
  show ?case
    by (simp add: test_not_global p a IH split: prod.splits bool.splits)
qed

lemma not_global_of_reset:
  assumes "map resetIndex ps = qs" and "\<forall>q\<in>set qs. \<not> global q"
  shows "\<forall>r\<in>set ps. \<not> global r"
proof
  fix r assume "r \<in> set ps"
  then have "resetIndex r \<in> set qs" using assms(1) by auto
  then have "\<not> global (resetIndex r)" using assms(2) by blast
  then show "\<not> global r" by (simp add: resetIndex_def)
qed

lemma GOOD_BOTS_not_global: "\<forall>q\<in>set GOOD_BOTS. \<not> global q"
  by (simp add: GOOD_BOTS_def literal_i_def)

lemma BOT_USER_AGENTS_not_global: "\<forall>q\<in>set BOT_USER_AGENTS. \<not> global q"
  by (simp add: BOT_USER_AGENTS_def literal_i_def)

lemma firstGood_module:
  assumes "map resetIndex (goodBots m) = GOOD_BOTS"
  shows "firstGood (goodBots m) ua = (fst (firstGood GOOD_BOTS ua), goodBots m)"
  using firstGood_not_global [OF not_global_of_reset [OF assms GOOD_BOTS_not_global], of ua]
  by (simp add: assms)

lemma anyBad_module:
  assumes "map resetIndex (botUserAgents m) = BOT_USER_AGENTS"
  shows "anyBad (botUserAgents m) ua = (fst (anyBad BOT_USER_AGENTS ua), botUserAgents m)"
  using anyBad_not_global [OF not_global_of_reset [OF assms BOT_USER_AGENTS_not_global], of ua]
  by (simp add: assms)

lemma resetIndex_GOOD_BOTS: "map resetIndex GOOD_BOTS = GOOD_BOTS"
  by (simp add: GOOD_BOTS_def literal_i_def resetIndex_def)

lemma resetIndex_BOT_USER_AGENTS: "map resetIndex BOT_USER_AGENTS = BOT_USER_AGENTS"
  by (simp add: BOT_USER_AGENTS_def literal_i_def resetIndex_def)

lemma analyzeBotSignature_module:
  assumes g: "map resetIndex (goodBots m) = GOOD_BOTS"
      and b: "map resetIndex (botUserAgents m) = BOT_USER_AGENTS"
  shows "analyzeBotSignature m req = (fst (analyzeBotSignature loaded req), m)"
proof -
  have lg: "map resetIndex (goodBots loaded) = GOOD_BOTS"
   and lb: "map resetIndex (botUserAgents loaded) = BOT_USER_AGENTS"
    by (simp_all add: loaded_def resetIndex_GOOD_BOTS resetIndex_BOT_USER_AGENTS)
  show ?thesis
    unfolding analyzeBotSignature_def Let_def
    by (simp add: firstGood_module [OF g] anyBad_module [OF b]
        firstGood_module [OF lg] anyBad_module [OF lb] split: option.splits)
qed



subsection \<open>Known crawlers\<close>

lemma firstGood_hit:
  "\<exists>p\<in>set ps. fst (test p ua) \<Longrightarrow> \<exists>nm. fst (firstGood ps ua) = Some nm"
proof (induction ps)
  case Nil
  then show ?case by simp
next
  case (Cons p ps)
  show ?case
  proof (cases "fst (test p ua)")
    case True
    then show ?thesis by (auto split: prod.splits)
  next
    case False
    with Cons.prems have "\<exists>q\<in>set ps. fst (test q ua)" by auto
    from Cons.IH [OF this] False show ?thesis by (auto split: prod.splits)
  qed
qed

text \<open>
  C6. When the user agent matches one of the expressions of \<^verbatim>\<open>GOOD_BOTS\<close>, the verdict
  is \<^verbatim>\<open>isBot = true\<close>, \<^verbatim>\<open>botType = 'good'\<close> and \<^verbatim>\<open>suspiciousScore = 0\<close>, whatever the
  referer, the other headers, the path and the length of the user agent are: the function
  returns from the loop over \<^verbatim>\<open>GOOD_BOTS\<close> before any other score is added.
\<close>

theorem known_good_short_circuit:
  assumes g: "map resetIndex (goodBots m) = GOOD_BOTS"
      and hit: "\<exists>p\<in>set GOOD_BOTS. fst (test p (header req ''user-agent''))"
  shows "isBot (fst (analyzeBotSignature m req)) = True
       \<and> botType (fst (analyzeBotSignature m req)) = Good
       \<and> suspiciousScore (fst (analyzeBotSignature m req)) = 0"
proof -
  from firstGood_hit [OF hit] obtain nm
    where "fst (firstGood GOOD_BOTS (header req ''user-agent'')) = Some nm" ..
  then have "firstGood (goodBots m) (header req ''user-agent'') = (Some nm, goodBots m)"
    by (simp add: firstGood_module [OF g])
  then show ?thesis by (simp add: analyzeBotSignature_def Let_def)
qed

text \<open>
  A crawler's request with no referer, a short user agent without a browser token and a
  host-override header: every other heuristic would add to the score.
\<close>

theorem known_good_short_circuit_witness:
  "(\<exists>p\<in>set GOOD_BOTS. fst (test p (header
        \<lparr>ip = Some ''66.249.66.1'',
         headers = [''user-agent'' \<mapsto> ''Googlebot/2.1'', ''x-forwarded-host'' \<mapsto> ''internal''],
         path = ''/tools''\<rparr> ''user-agent'')))
   \<and> isBot (fst (analyzeBotSignature loaded
        \<lparr>ip = Some ''66.249.66.1'',
         headers = [''user-agent'' \<mapsto> ''Googlebot/2.1'', ''x-forwarded-host'' \<mapsto> ''internal''],
         path = ''/tools''\<rparr>)) = True
   \<and> botType (fst (analyzeBotSignature loaded
        \<lparr>ip = Some ''66.249.66.1'',
         headers = [''user-agent'' \<mapsto> ''Googlebot/2.1'', ''x-forwarded-host'' \<mapsto> ''internal''],
         path = ''/tools''\<rparr>)) = Good
   \<and> suspiciousScore (fst (analyzeBotSignature loaded
        \<lparr>ip = Some ''66.249.66.1'',
         headers = [''user-agent'' \<mapsto> ''Googlebot/2.1'', ''x-forwarded-host'' \<mapsto> ''internal''],
         path = ''/tools''\<rparr>)) = 0"
proof -
  have g: "map resetIndex (goodBots loaded) = GOOD_BOTS"
    by (simp add: loaded_def resetIndex_GOOD_BOTS)
  have hit: "\<exists>p\<in>set GOOD_BOTS. fst (test p (header
        \<lparr>ip = Some ''66.249.66.1'',
         headers = [''user-agent'' \<mapsto> ''Googlebot/2.1'', ''x-forwarded-host'' \<mapsto> ''internal''],
         path = ''/tools''\<rparr> ''user-agent''))"
    by code_simp
  show ?thesis
    using known_good_short_circuit [OF g hit] hit by simp
qed

section \<open>Properties of the middleware and of the pipeline\<close>

lemma analyzeBotSignature_counts:
  "fst (analyzeBotSignature (m\<lparr>ipRequestCounts := c\<rparr>) req) = fst (analyzeBotSignature m req)"
proof -
  obtain r gs where fg: "firstGood (goodBots m) (header req ''user-agent'') = (r, gs)"
    by fastforce
  obtain isbad bs where ab: "anyBad (botUserAgents m) (header req ''user-agent'') = (isbad, bs)"
    by fastforce
  show ?thesis
    by (cases r) (simp_all add: analyzeBotSignature_def Let_def fg ab)
qed

lemma botDetection_blocked:
  "isBlocked (clientIp req) m \<Longrightarrow>
   botDetection m now req = (Respond (Rejected 403 ''Access temporarily blocked'' (Some 300)), m)"
  by (simp add: botDetection_def isBlocked_def)

lemma botDetection_unblocked:
  assumes nb: "\<not> isBlocked (clientIp req) m"
  shows "botDetection m now req =
        (let d0 = (case map_of (ipRequestCounts m) (clientIp req) of
                     None \<Rightarrow> \<lparr>count = 0, firstRequest = now, lastRequest = now\<rparr>
                   | Some d \<Rightarrow> d);
             d1 = d0\<lparr>count := count d0 + 1, lastRequest := now\<rparr>
         in if now - firstRequest d1 < 10000 \<and> rapidRequests < count d1
            then (Respond (Rejected 429 ''Too many requests. Please slow down.'' (Some 60)),
                  blockIP (clientIp req) now
                    (m\<lparr>ipRequestCounts := AList.update (clientIp req) d1 (ipRequestCounts m)\<rparr>))
            else
              (let d2 = (if 10000 < now - firstRequest d1
                         then d1\<lparr>count := 1, firstRequest := now\<rparr> else d1);
                   m1 = m\<lparr>ipRequestCounts := AList.update (clientIp req) d2 (ipRequestCounts m)\<rparr>
               in case analyzeBotSignature m1 req of
                    (info, m2) \<Rightarrow>
                      if isBot info \<and> botType info = Bad
                      then (Respond (Rejected 403 ''Automated access not allowed'' None), m2)
                      else (Next info, m2)))"
proof -
  have "clientIp req \<notin> set (blockedIPs m)" using nb by (simp add: isBlocked_def)
  then show ?thesis
    by (simp only: botDetection_def Let_def if_False)
qed

lemma botDetection_rapid:
  assumes nb: "\<not> isBlocked (clientIp req) m" and ra: "rapid m now (clientIp req)"
  shows "botDetection m now req =
           (Respond (Rejected 429 ''Too many requests. Please slow down.'' (Some 60)),
            blockIP (clientIp req) now
              (m\<lparr>ipRequestCounts :=
                   AList.update (clientIp req)
                     ((the (map_of (ipRequestCounts m) (clientIp req)))
                        \<lparr>count := count (the (map_of (ipRequestCounts m) (clientIp req))) + 1,
                         lastRequest := now\<rparr>)
                     (ipRequestCounts m)\<rparr>))"
proof -
  from ra obtain d where d: "map_of (ipRequestCounts m) (clientIp req) = Some d"
      and c: "now - firstRequest d < 10000" "rapidRequests \<le> count d"
    by (auto simp add: rapid_def split: option.splits)
  have "now - firstRequest d < 10000 \<and> rapidRequests < count d + 1"
    using c by simp
  then show ?thesis
    unfolding botDetection_unblocked [OF nb] Let_def
    by (simp add: d)
qed

lemma botDetection_classify:
  assumes nb: "\<not> isBlocked (clientIp req) m" and nr: "\<not> rapid m now (clientIp req)"
  shows "fst (botDetection m now req) =
     (if badBot m req then Respond (Rejected 403 ''Automated access not allowed'' None)
      else Next (fst (analyzeBotSignature m req)))"
proof -
  define d0 where "d0 = (case map_of (ipRequestCounts m) (clientIp req) of
                     None \<Rightarrow> \<lparr>count = 0, firstRequest = now, lastRequest = now\<rparr>
                   | Some d \<Rightarrow> d)"
  define d1 where "d1 = d0\<lparr>count := count d0 + 1, lastRequest := now\<rparr>"
  define d2 where "d2 = (if 10000 < now - firstRequest d1
                         then d1\<lparr>count := 1, firstRequest := now\<rparr> else d1)"
  define m1 where "m1 = m\<lparr>ipRequestCounts := AList.update (clientIp req) d2 (ipRequestCounts m)\<rparr>"
  have r: "\<not> (now - firstRequest d1 < 10000 \<and> rapidRequests < count d1)"
    using nr by (auto simp add: rapid_def d1_def d0_def rapidRequests_def split: option.splits)
  have i: "fst (analyzeBotSignature m1 req) = fst (analyzeBotSignature m req)"
    by (simp add: m1_def analyzeBotSignature_counts)
  have "botDetection m now req =
          (case analyzeBotSignature m1 req of
             (info, m2) \<Rightarrow>
               if isBot info \<and> botType info = Bad
               then (Respond (Rejected 403 ''Automated access not allowed'' None), m2)
               else (Next info, m2))"
    using r unfolding botDetection_unblocked [OF nb] Let_def d0_def d1_def d2_def m1_def
    by (simp only: if_False)
  then show ?thesis
    using i by (cases "analyzeBotSignature m1 req") (simp add: badBot_def)
qed

text \<open>
  No operation of the module touches its pattern arrays: in every state the module
  reaches, the RegExp objects are the ones it was loaded with.
\<close>

lemma botDetection_keeps_patterns:
  assumes g: "map resetIndex (goodBots m) = GOOD_BOTS"
      and b: "map resetIndex (botUserAgents m) = BOT_USER_AGENTS"
  shows "goodBots (snd (botDetection m now req)) = goodBots m
       \<and> botUserAgents (snd (botDetection m now req)) = botUserAgents m"
proof (cases "isBlocked (clientIp req) m")
  case True
  then show ?thesis by (simp add: botDetection_blocked)
next
  case nb: False
  define d0 where "d0 = (case map_of (ipRequestCounts m) (clientIp req) of
                     None \<Rightarrow> \<lparr>count = 0, firstRequest = now, lastRequest = now\<rparr>
                   | Some d \<Rightarrow> d)"
  define d1 where "d1 = d0\<lparr>count := count d0 + 1, lastRequest := now\<rparr>"
  define d2 where "d2 = (if 10000 < now - firstRequest d1
                         then d1\<lparr>count := 1, firstRequest := now\<rparr> else d1)"
  define m1 where "m1 = m\<lparr>ipRequestCounts := AList.update (clientIp req) d2 (ipRequestCounts m)\<rparr>"
  have p1: "map resetIndex (goodBots m1) = GOOD_BOTS"
    "map resetIndex (botUserAgents m1) = BOT_USER_AGENTS"
    using g b by (simp_all add: m1_def)
  have a: "snd (analyzeBotSignature m1 req) = m1"
    by (simp add: analyzeBotSignature_module [OF p1])
  have u: "botDetection m now req =
         (if now - firstRequest d1 < 10000 \<and> rapidRequests < count d1
            then (Respond (Rejected 429 ''Too many requests. Please slow down.'' (Some 60)),
                  blockIP (clientIp req) now
                    (m\<lparr>ipRequestCounts := AList.update (clientIp req) d1 (ipRequestCounts m)\<rparr>))
            else (case analyzeBotSignature m1 req of
                    (info, m2) \<Rightarrow>
                      if isBot info \<and> botType info = Bad
                      then (Respond (Rejected 403 ''Automated access not allowed'' None), m2)
                      else (Next info, m2)))"
    unfolding botDetection_unblocked [OF nb] Let_def d0_def d1_def d2_def m1_def ..
  show ?thesis
  proof (cases "now - firstRequest d1 < 10000 \<and> rapidRequests < count d1")
    case True
    then show ?thesis unfolding u by (simp add: blockIP_def)
  next
    case False
    then have "botDetection m now req =
         (case analyzeBotSignature m1 req of
            (info, m2) \<Rightarrow>
              if isBot info \<and> botType info = Bad
              then (Respond (Rejected 403 ''Automated access not allowed'' None), m2)
              else (Next info, m2))"
      unfolding u by (simp only: if_False)
    then have "snd (botDetection m now req) = snd (analyzeBotSignature m1 req)"
      by (cases "analyzeBotSignature m1 req") simp
    then have "snd (botDetection m now req) = m1"
      by (simp only: a)
    then show ?thesis by (simp add: m1_def)
  qed
qed

lemma block_list_keeps_patterns:
  "goodBots (manualBlockIP a d now m) = goodBots m"
  "botUserAgents (manualBlockIP a d now m) = botUserAgents m"
  "goodBots (unblockIP a m) = goodBots m"
  "botUserAgents (unblockIP a m) = botUserAgents m"
  by (simp_all add: manualBlockIP_def unblockIP_def)

lemma botDetection_rapid_blocks:
  assumes "\<not> isBlocked (clientIp req) m" and "rapid m now (clientIp req)"
  shows "isBlocked (clientIp req) (snd (botDetection m now req))"
  by (simp add: botDetection_rapid [OF assms] blockIP_def isBlocked_def setAdd_def)

lemma analyzeBotSignature_blockedIPs:
  "blockedIPs (snd (analyzeBotSignature m req)) = blockedIPs m"
proof -
  obtain r gs where fg: "firstGood (goodBots m) (header req ''user-agent'') = (r, gs)"
    by fastforce
  obtain isbad bs where ab: "anyBad (botUserAgents m) (header req ''user-agent'') = (isbad, bs)"
    by fastforce
  show ?thesis
    by (cases r) (simp_all add: analyzeBotSignature_def Let_def fg ab)
qed

lemma botDetection_classify_blockedIPs:
  assumes nb: "\<not> isBlocked (clientIp req) m" and nr: "\<not> rapid m now (clientIp req)"
  shows "blockedIPs (snd (botDetection m now req)) = blockedIPs m"
proof -
  define d0 where "d0 = (case map_of (ipRequestCounts m) (clientIp req) of
                     None \<Rightarrow> \<lparr>count = 0, firstRequest = now, lastRequest = now\<rparr>
                   | Some d \<Rightarrow> d)"
  define d1 where "d1 = d0\<lparr>count := count d0 + 1, lastRequest := now\<rparr>"
  define d2 where "d2 = (if 10000 < now - firstRequest d1
                         then d1\<lparr>count := 1, firstRequest := now\<rparr> else d1)"
  define m1 where "m1 = m\<lparr>ipRequestCounts := AList.update (clientIp req) d2 (ipRequestCounts m)\<rparr>"
  have r: "\<not> (now - firstRequest d1 < 10000 \<and> rapidRequests < count d1)"
    using nr by (auto simp add: rapid_def d1_def d0_def rapidRequests_def split: option.splits)
  have "botDetection m now req =
          (case analyzeBotSignature m1 req of
             (info, m2) \<Rightarrow>
               if isBot info \<and> botType info = Bad
               then (Respond (Rejected 403 ''Automated access not allowed'' None), m2)
               else (Next info, m2))"
    using r unfolding botDetection_unblocked [OF nb] Let_def d0_def d1_def d2_def m1_def
    by (simp only: if_False)
  then have "snd (botDetection m now req) = snd (analyzeBotSignature m1 req)"
    by (cases "analyzeBotSignature m1 req") simp
  then have "blockedIPs (snd (botDetection m now req)) = blockedIPs m1"
    by (simp only: analyzeBotSignature_blockedIPs)
  then show ?thesis by (simp add: m1_def)
qed

text \<open>
  After \<^verbatim>\<open>botDetection\<close> has handled a request, its sender is blocked exactly when it
  was blocked before or the request was a rapid one.
\<close>

lemma botDetection_blocked_after:
  "isBlocked (clientIp req) (snd (botDetection m now req))
     = (isBlocked (clientIp req) m \<or> rapid m now (clientIp req))"
proof (cases "isBlocked (clientIp req) m")
  case True
  then show ?thesis by (simp add: botDetection_blocked)
next
  case nb: False
  show ?thesis
  proof (cases "rapid m now (clientIp req)")
    case True
    with nb show ?thesis by (simp add: botDetection_rapid_blocks)
  next
    case False
    with nb show ?thesis
      by (simp add: isBlocked_def botDetection_classify_blockedIPs)
  qed
qed

text \<open>The four ways through the pipeline.\<close>

lemma handleRequest_preflight:
  "httpMethod inb = ''OPTIONS'' \<Longrightarrow>
   handleRequest production limiter (l, m) now inb = (Respond NoContent, (l, m))"
  by (simp add: handleRequest_def)

lemma handleRequest_refused:
  "httpMethod inb \<noteq> ''OPTIONS'' \<Longrightarrow> \<not> fst (limiter l (clientIp (metadata inb)) now) \<Longrightarrow>
   handleRequest production limiter (l, m) now inb =
     (Respond (Rejected 429 ''Too many requests, please try again later.'' (Some 60)),
      (snd (limiter l (clientIp (metadata inb)) now), m))"
  by (cases "limiter l (clientIp (metadata inb)) now") (simp add: handleRequest_def)

lemma handleRequest_body_error:
  "httpMethod inb \<noteq> ''OPTIONS'' \<Longrightarrow> fst (limiter l (clientIp (metadata inb)) now) \<Longrightarrow>
   bodyError inb = Some err \<Longrightarrow>
   handleRequest production limiter (l, m) now inb =
     (Respond (errorHandler production err), (snd (limiter l (clientIp (metadata inb)) now), m))"
  by (cases "limiter l (clientIp (metadata inb)) now") (simp add: handleRequest_def)

lemma handleRequest_admitted:
  "httpMethod inb \<noteq> ''OPTIONS'' \<Longrightarrow> fst (limiter l (clientIp (metadata inb)) now) \<Longrightarrow>
   bodyError inb = None \<Longrightarrow>
   handleRequest production limiter (l, m) now inb =
     (fst (botDetection m now (metadata inb)),
      (snd (limiter l (clientIp (metadata inb)) now), snd (botDetection m now (metadata inb))))"
  by (cases "limiter l (clientIp (metadata inb)) now")
     (simp add: handleRequest_def split: prod.splits)

lemma botDetection_order:
  "fst (botDetection m now req) =
     (if isBlocked (clientIp req) m
      then Respond (Rejected 403 ''Access temporarily blocked'' (Some 300))
      else if rapid m now (clientIp req)
      then Respond (Rejected 429 ''Too many requests. Please slow down.'' (Some 60))
      else if badBot m req
      then Respond (Rejected 403 ''Automated access not allowed'' None)
      else Next (fst (analyzeBotSignature m req)))"
proof (cases "isBlocked (clientIp req) m")
  case True
  then show ?thesis by (simp add: botDetection_blocked)
next
  case nb: False
  show ?thesis
  proof (cases "rapid m now (clientIp req)")
    case True
    with nb show ?thesis by (simp add: botDetection_rapid)
  next
    case False
    with nb show ?thesis by (simp add: botDetection_classify)
  qed
qed

text \<open>
  C1, as the code has it. Every inbound request meets the middleware in this order, and
  the first answer ends it: \<^verbatim>\<open>cors\<close> answers an \<^verbatim>\<open>OPTIONS\<close> request itself (204);
  the rate limiter of \<^verbatim>\<open>server.js\<close> rejects with 429 and \<^verbatim>\<open>retryAfter: 60\<close>; an error
  of the body parsers goes to the error handler; then, in \<^verbatim>\<open>botDetection\<close>, the block
  list rejects with 403 and \<^verbatim>\<open>retryAfter: 300\<close>, the rapid-request counter with 429 and
  \<^verbatim>\<open>retryAfter: 60\<close>, and the bot classifier with 403 when the bot is a bad one. So the
  rate-limit rejection comes before the block list is asked. The rapid-request rejection
  also blocks the sender, and no other step does: after the request its sender is
  blocked exactly when it was blocked before or the request reached the counter and was
  a rapid one. The limiter counts every request that \<^verbatim>\<open>cors\<close> passes on. This
  holds for every limiter, every state and every request.
\<close>

theorem pipeline_order:
  "fst (handleRequest production limiter (l, m) now inb) =
     (if httpMethod inb = ''OPTIONS'' then Respond NoContent
      else if \<not> fst (limiter l (clientIp (metadata inb)) now)
      then Respond (Rejected 429 ''Too many requests, please try again later.'' (Some 60))
      else case bodyError inb of
        Some err \<Rightarrow> Respond (errorHandler production err)
      | None \<Rightarrow>
          if isBlocked (clientIp (metadata inb)) m
          then Respond (Rejected 403 ''Access temporarily blocked'' (Some 300))
          else if rapid m now (clientIp (metadata inb))
          then Respond (Rejected 429 ''Too many requests. Please slow down.'' (Some 60))
          else if badBot m (metadata inb)
          then Respond (Rejected 403 ''Automated access not allowed'' None)
          else Next (fst (analyzeBotSignature m (metadata inb))))
   \<and> isBlocked (clientIp (metadata inb))
       (snd (snd (handleRequest production limiter (l, m) now inb)))
     = (isBlocked (clientIp (metadata inb)) m
        \<or> (httpMethod inb \<noteq> ''OPTIONS'' \<and> fst (limiter l (clientIp (metadata inb)) now)
            \<and> bodyError inb = None \<and> rapid m now (clientIp (metadata inb))))
   \<and> fst (snd (handleRequest production limiter (l, m) now inb))
     = (if httpMethod inb = ''OPTIONS'' then l
        else snd (limiter l (clientIp (metadata inb)) now))"
proof (cases "httpMethod inb = ''OPTIONS''")
  case True
  then show ?thesis by (simp add: handleRequest_preflight)
next
  case np: False
  show ?thesis
  proof (cases "fst (limiter l (clientIp (metadata inb)) now)")
    case False
    with np show ?thesis by (simp add: handleRequest_refused)
  next
    case ad: True
    show ?thesis
    proof (cases "bodyError inb")
      case (Some err)
      with np ad show ?thesis by (simp add: handleRequest_body_error)
    next
      case None
      have h: "handleRequest production limiter (l, m) now inb =
         (fst (botDetection m now (metadata inb)),
          (snd (limiter l (clientIp (metadata inb)) now),
           snd (botDetection m now (metadata inb))))"
        using np ad None by (rule handleRequest_admitted)
      show ?thesis
        unfolding h using np ad None
        by (simp add: botDetection_order botDetection_blocked_after)
    qed
  qed
qed

text \<open>
  Twenty requests of one client within twenty milliseconds leave its address unblocked;
  the next one is rapid: it is answered 429 and the address is blocked.
\<close>

theorem pipeline_order_witness:
  "\<not> isBlocked ''198.51.100.7'' (snd (afterRequests 20))
   \<and> fst (handleRequest False globalLimiter (fst (afterRequests 20), snd (afterRequests 20)) 21
        plainRequest)
     = Respond (Rejected 429 ''Too many requests. Please slow down.'' (Some 60))
   \<and> isBlocked ''198.51.100.7''
       (snd (snd (handleRequest False globalLimiter
          (fst (afterRequests 20), snd (afterRequests 20)) 21 plainRequest)))"
proof -
  have a: "clientIp (metadata plainRequest) = ''198.51.100.7''"
    by code_simp
  have np: "httpMethod plainRequest \<noteq> ''OPTIONS''" and nb: "bodyError plainRequest = None"
    by (simp_all add: plainRequest_def)
  have ad: "fst (globalLimiter (fst (afterRequests 20)) ''198.51.100.7'' 21)"
    by code_simp
  have b: "\<not> isBlocked ''198.51.100.7'' (snd (afterRequests 20))"
    by code_simp
  have r: "rapid (snd (afterRequests 20)) 21 ''198.51.100.7''"
    by code_simp
  show ?thesis
    using pipeline_order [of False globalLimiter "fst (afterRequests 20)" "snd (afterRequests 20)"
        21 plainRequest]
    by (simp add: a np nb ad b r)
qed

text \<open>
  C1 as the specification states it puts the block list first, so that a blocked address
  is always answered 403. An address is blocked at time 0 and sends a request each
  millisecond. Its first hundred requests pass the limiter and are answered by the block
  list; request 101 is answered 429 by the limiter, although the address is still in the
  blocked set: the rate-limit rejection is produced without the block list being asked.
\<close>

theorem rate_limit_precedes_block_check:
  "isBlocked ''203.0.113.5''
     (snd (serve False globalLimiter ([], manualBlockIP ''203.0.113.5'' 300000 0 loaded)
        (zip [1..100]
           (replicate 100
              \<lparr>httpMethod = ''GET'', bodyError = None,
               metadata = \<lparr>ip = Some ''203.0.113.5'', headers = Map.empty, path = ''/''\<rparr>\<rparr>))))
   \<and> fst (handleRequest False globalLimiter
        (serve False globalLimiter ([], manualBlockIP ''203.0.113.5'' 300000 0 loaded)
           (zip [1..100]
              (replicate 100
                 \<lparr>httpMethod = ''GET'', bodyError = None,
                  metadata = \<lparr>ip = Some ''203.0.113.5'', headers = Map.empty, path = ''/''\<rparr>\<rparr>)))
        101
        \<lparr>httpMethod = ''GET'', bodyError = None,
         metadata = \<lparr>ip = Some ''203.0.113.5'', headers = Map.empty, path = ''/''\<rparr>\<rparr>)
     = Respond (Rejected 429 ''Too many requests, please try again later.'' (Some 60))"
  by code_simp

text \<open>
  C10 as the specification states it has every request of a blocked address answered 403
  with \<^verbatim>\<open>retryAfter: 300\<close>. A client sends a request each millisecond. Request 21 is a
  rapid one and blocks the address, requests 22 to 100 are answered by the block list.
  Request 101 is over the limit of a hundred a minute: the address is in the blocked set,
  and the answer is 429 with \<^verbatim>\<open>retryAfter: 60\<close>.
\<close>

theorem blocked_ip_over_limit:
  "isBlocked (clientIp (metadata plainRequest)) (snd (afterRequests 100))
   \<and> handleRequest False globalLimiter (afterRequests 100) 101 plainRequest
     = (Respond (Rejected 429 ''Too many requests, please try again later.'' (Some 60)),
        (snd (globalLimiter (fst (afterRequests 100)) ''198.51.100.7'' 101),
         snd (afterRequests 100)))"
  by code_simp

text \<open>
  Nor is a blocked address answered 403 when it sends a preflight request or a body that
  the parsers refuse.
\<close>

lemma blocked_ip_other_answers:
  "fst (handleRequest production limiter (l, m) now (inb\<lparr>httpMethod := ''OPTIONS''\<rparr>))
     = Respond NoContent"
  "httpMethod inb \<noteq> ''OPTIONS'' \<Longrightarrow> fst (limiter l (clientIp (metadata inb)) now) \<Longrightarrow>
   fst (handleRequest production limiter (l, m) now (inb\<lparr>bodyError := Some err\<rparr>))
     = Respond (errorHandler production err)"
  by (simp_all add: handleRequest_preflight handleRequest_body_error)

text \<open>
  C10, as the code has it. A request from an address in the blocked set that reaches the
  block list (it is no \<^verbatim>\<open>OPTIONS\<close> request, the rate limiter admits it and the body
  parsers raise no error) is answered 403 with \<^verbatim>\<open>retryAfter: 300\<close>, and the block list,
  the counters and the timers stay as they are. The answer is the same for every state
  with the address in the set and for every time: it depends neither on the duration the
  block was asked for nor on what is left of it.
\<close>

theorem blocked_ip_rejected:
  assumes "httpMethod inb \<noteq> ''OPTIONS''"
      and "fst (limiter l (clientIp (metadata inb)) now)"
      and "bodyError inb = None"
      and "isBlocked (clientIp (metadata inb)) m"
  shows "handleRequest production limiter (l, m) now inb =
     (Respond (Rejected 403 ''Access temporarily blocked'' (Some 300)),
      (snd (limiter l (clientIp (metadata inb)) now), m))"
proof -
  have "handleRequest production limiter (l, m) now inb =
     (fst (botDetection m now (metadata inb)),
      (snd (limiter l (clientIp (metadata inb)) now), snd (botDetection m now (metadata inb))))"
    using assms(1,2,3) by (rule handleRequest_admitted)
  then show ?thesis
    using botDetection_blocked [OF assms(4), of now] by simp
qed

text \<open>A block asked for one second, met after half of it: the hint is still 300 seconds.\<close>

theorem blocked_ip_rejected_witness:
  "handleRequest False globalLimiter manuallyBlocked 500 plainRequest
     = (Respond (Rejected 403 ''Access temporarily blocked'' (Some 300)),
        ([(''198.51.100.7'', \<lparr>totalHits = 1, resetTime = 60500\<rparr>)], snd manuallyBlocked))"
proof -
  have np: "httpMethod plainRequest \<noteq> ''OPTIONS''" and nb: "bodyError plainRequest = None"
    by (simp_all add: plainRequest_def)
  have ad: "fst (globalLimiter (fst manuallyBlocked) (clientIp (metadata plainRequest)) 500)"
    by code_simp
  have b: "isBlocked (clientIp (metadata plainRequest)) (snd manuallyBlocked)"
    by code_simp
  have l: "snd (globalLimiter (fst manuallyBlocked) (clientIp (metadata plainRequest)) 500)
         = [(''198.51.100.7'', \<lparr>totalHits = 1, resetTime = 60500\<rparr>)]"
    by code_simp
  have s: "(fst manuallyBlocked, snd manuallyBlocked) = manuallyBlocked"
    by simp
  show ?thesis
    using blocked_ip_rejected [of plainRequest globalLimiter "fst manuallyBlocked" 500
        "snd manuallyBlocked" False, OF np ad nb b] l
    by (simp only: s)
qed

section \<open>Properties of the block list\<close>

lemma manualBlockIP_blocks: "isBlocked a (manualBlockIP a d now m)"
  by (simp add: manualBlockIP_def isBlocked_def setAdd_def)

lemma fold_timers_blocked:
  "blockedIPs (fold (\<lambda>(t, a) m'. m'\<lparr>blockedIPs := setDelete a (blockedIPs m')\<rparr>) due m)
     = filter (\<lambda>a. a \<notin> snd ` set due) (blockedIPs m)"
proof (induction due arbitrary: m)
  case Nil
  then show ?case by simp
next
  case (Cons x due)
  obtain t a where x: "x = (t, a)" by (cases x)
  have "filter (\<lambda>b. b \<notin> snd ` set due) (removeAll a xs)
      = filter (\<lambda>b. b \<notin> snd ` set ((t, a) # due)) xs" for xs :: "string list"
    by (induction xs) auto
  then show ?case
    using Cons.IH [of "m\<lparr>blockedIPs := setDelete a (blockedIPs m)\<rparr>"]
    by (simp add: x setDelete_def)
qed

text \<open>
  After the timers that are due have run, an address is blocked exactly when it was
  blocked before and none of its own timers was due.
\<close>

lemma isBlocked_runTimers:
  "isBlocked a (runTimers now m)
     = (isBlocked a m \<and> a \<notin> snd ` set (filter (\<lambda>(t, b). t \<le> now) (timers m)))"
  unfolding runTimers_def isBlocked_def
  by (simp add: fold_timers_blocked)

text \<open>A block is over once its own delay has passed.\<close>

lemma manualBlockIP_expires:
  assumes "now + timerDelay d \<le> t"
  shows "\<not> isBlocked a (runTimers t (manualBlockIP a d now m))"
proof -
  have "(now + timerDelay d, a) \<in> set (filter (\<lambda>(u, b). u \<le> t) (timers (manualBlockIP a d now m)))"
    using assms by (simp add: manualBlockIP_def)
  then have "a \<in> snd ` set (filter (\<lambda>(u, b). u \<le> t) (timers (manualBlockIP a d now m)))"
    by force
  then show ?thesis by (simp add: isBlocked_runTimers)
qed

text \<open>With no older timer pending for the address, the block lasts until then.\<close>

lemma manualBlockIP_lasts:
  assumes "a \<notin> snd ` set (timers m)" and "t < now + timerDelay d"
  shows "isBlocked a (runTimers t (manualBlockIP a d now m))"
proof -
  have "a \<notin> snd ` set (filter (\<lambda>(u, b). u \<le> t) (timers (manualBlockIP a d now m)))"
    using assms by (auto simp add: manualBlockIP_def)
  then show ?thesis by (simp add: isBlocked_runTimers manualBlockIP_blocks)
qed

lemma fold_timers_timers:
  "timers (fold (\<lambda>(t, a) m'. m'\<lparr>blockedIPs := setDelete a (blockedIPs m')\<rparr>) due m) = timers m"
  by (induction due arbitrary: m) (auto split: prod.splits)

lemma timers_runTimers:
  "timers (runTimers now m) = filter (\<lambda>(t, a). \<not> t \<le> now) (timers m)"
  by (simp add: runTimers_def fold_timers_timers)

text \<open>
  Two blocks of one address, the second at or after the first, with no older timer
  pending: the address stays blocked until the earliest timer that is still pending
  fires. When the first timer is pending at the second call, it ends the second block.
\<close>

lemma reblock_ends_at_earliest_timer:
  assumes fresh: "a \<notin> snd ` set (timers m)"
  shows "isBlocked a
           (runTimers t (manualBlockIP a d2 t2 (runTimers t2 (manualBlockIP a d1 t1 m))))
       = ((t2 < t1 + timerDelay d1 \<longrightarrow> t < t1 + timerDelay d1) \<and> t < t2 + timerDelay d2)"
proof -
  define m1 where "m1 = runTimers t2 (manualBlockIP a d1 t1 m)"
  have t1: "timers m1 = filter (\<lambda>(u, b). \<not> u \<le> t2) (timers m @ [(t1 + timerDelay d1, a)])"
    by (simp add: m1_def timers_runTimers manualBlockIP_def)
  have "a \<in> snd ` set (filter (\<lambda>(u, b). u \<le> t) (timers (manualBlockIP a d2 t2 m1)))
      = ((t2 < t1 + timerDelay d1 \<and> t1 + timerDelay d1 \<le> t) \<or> t2 + timerDelay d2 \<le> t)"
  proof
    assume "a \<in> snd ` set (filter (\<lambda>(u, b). u \<le> t) (timers (manualBlockIP a d2 t2 m1)))"
    then obtain u where "(u, a) \<in> set (timers (manualBlockIP a d2 t2 m1))" and u: "u \<le> t"
      by auto
    then have "(u, a) \<in> set (timers m) \<or> (u = t1 + timerDelay d1 \<and> \<not> u \<le> t2)
             \<or> u = t2 + timerDelay d2"
      by (auto simp add: manualBlockIP_def t1 split: if_splits)
    moreover have "(u, a) \<notin> set (timers m)" using fresh by force
    ultimately show "(t2 < t1 + timerDelay d1 \<and> t1 + timerDelay d1 \<le> t) \<or> t2 + timerDelay d2 \<le> t"
      using u by auto
  next
    assume h: "(t2 < t1 + timerDelay d1 \<and> t1 + timerDelay d1 \<le> t) \<or> t2 + timerDelay d2 \<le> t"
    then consider "t2 < t1 + timerDelay d1 \<and> t1 + timerDelay d1 \<le> t" | "t2 + timerDelay d2 \<le> t"
      by blast
    then show "a \<in> snd ` set (filter (\<lambda>(u, b). u \<le> t) (timers (manualBlockIP a d2 t2 m1)))"
    proof cases
      case 1
      then have "(t1 + timerDelay d1, a)
          \<in> set (filter (\<lambda>(u, b). u \<le> t) (timers (manualBlockIP a d2 t2 m1)))"
        by (simp add: manualBlockIP_def t1)
      then show ?thesis by force
    next
      case 2
      then have "(t2 + timerDelay d2, a)
          \<in> set (filter (\<lambda>(u, b). u \<le> t) (timers (manualBlockIP a d2 t2 m1)))"
        by (simp add: manualBlockIP_def)
      then show ?thesis by force
    qed
  qed
  then show ?thesis
    unfolding m1_def [symmetric]
    by (auto simp add: isBlocked_runTimers manualBlockIP_blocks)
qed

text \<open>
  C3 at a failing input. An address is blocked for ten seconds at time 0 and blocked again
  for ten seconds at time 5000. The second call makes the address blocked, and by the
  specification it stays blocked until 15000. The callback that the first call scheduled
  is never cancelled: at 10000 it deletes the address, so at 12000 the address is not
  blocked.
\<close>

theorem reblock_cut_short_by_first_timer:
  "isBlocked ''203.0.113.5''
     (manualBlockIP ''203.0.113.5'' 10000 5000
        (runTimers 5000 (manualBlockIP ''203.0.113.5'' 10000 0 loaded)))
   \<and> isBlocked ''203.0.113.5''
       (runTimers 9999
          (manualBlockIP ''203.0.113.5'' 10000 5000
             (runTimers 5000 (manualBlockIP ''203.0.113.5'' 10000 0 loaded))))
   \<and> \<not> isBlocked ''203.0.113.5''
       (runTimers 12000
          (manualBlockIP ''203.0.113.5'' 10000 5000
             (runTimers 5000 (manualBlockIP ''203.0.113.5'' 10000 0 loaded))))"
  by code_simp

section \<open>Properties of the browser's rate limiter\<close>

lemma filter_window_mono:
  assumes "now \<le> t"
  shows "length (filter (\<lambda>u. t - u < RATE_LIMIT_WINDOW) xs)
       \<le> length (filter (\<lambda>u. t - u < RATE_LIMIT_WINDOW) (filter (\<lambda>u. now - u < RATE_LIMIT_WINDOW) xs))"
proof -
  have "filter (\<lambda>u. t - u < RATE_LIMIT_WINDOW) (filter (\<lambda>u. now - u < RATE_LIMIT_WINDOW) xs)
      = filter (\<lambda>u. t - u < RATE_LIMIT_WINDOW) xs"
    using assms by (induction xs) auto
  then show ?thesis by simp
qed

lemma checkLimit_allowed_step:
  assumes al: "allowed (fst (checkLimit now r))"
      and le: "now \<le> t" and win: "t - now < RATE_LIMIT_WINDOW"
      and inv: "k = 0 \<or> (\<not> blocked r \<and> k \<le> inWindow t r)"
  shows "\<not> blocked (snd (checkLimit now r)) \<and> Suc k \<le> inWindow t (snd (checkLimit now r))"
proof (cases "blocked r")
  case True
  with inv have k: "k = 0" by simp
  from True al show ?thesis
    unfolding checkLimit_def Let_def
    by (auto simp add: k inWindow_def win MAX_REQUESTS_PER_WINDOW_def split: if_splits)
next
  case False
  have m: "inWindow t r \<le> length (filter (\<lambda>u. t - u < RATE_LIMIT_WINDOW) (filter (\<lambda>u. now - u < RATE_LIMIT_WINDOW) (requests r)))"
    unfolding inWindow_def by (rule filter_window_mono [OF le])
  have k: "k \<le> inWindow t r" using inv False by auto
  from False al show ?thesis
    unfolding checkLimit_def Let_def
    using m k by (auto simp add: inWindow_def win split: if_splits)
qed

lemma checks_allowed_run:
  assumes "\<forall>u\<in>set ts. u \<le> t \<and> t - u < RATE_LIMIT_WINDOW"
      and "\<forall>res\<in>set (fst (checks ts r)). allowed res"
      and "k = 0 \<or> (\<not> blocked r \<and> k \<le> inWindow t r)"
  shows "k + length ts = 0 \<or>
         (\<not> blocked (snd (checks ts r)) \<and> k + length ts \<le> inWindow t (snd (checks ts r)))"
  using assms
proof (induction ts arbitrary: r k)
  case Nil
  then show ?case by simp
next
  case (Cons now ts)
  obtain res r' where c: "checkLimit now r = (res, r')" by fastforce
  obtain rs r'' where cs: "checks ts r' = (rs, r'')" by fastforce
  from Cons.prems(2) c cs have al: "allowed (fst (checkLimit now r))"
    and rest: "\<forall>res\<in>set (fst (checks ts r')). allowed res"
    by simp_all
  from Cons.prems(1) have le: "now \<le> t" and win: "t - now < RATE_LIMIT_WINDOW"
    and tl: "\<forall>u\<in>set ts. u \<le> t \<and> t - u < RATE_LIMIT_WINDOW"
    by simp_all
  from checkLimit_allowed_step [OF al le win Cons.prems(3)] c
  have step: "\<not> blocked r' \<and> Suc k \<le> inWindow t r'" by simp
  then have "Suc k = 0 \<or> (\<not> blocked r' \<and> Suc k \<le> inWindow t r')" by simp
  from Cons.IH [OF tl rest this] c cs show ?case by simp
qed

lemma checkLimit_full:
  assumes "\<not> blocked r" and "MAX_REQUESTS_PER_WINDOW \<le> inWindow t r"
  shows "checkLimit t r =
     (Denied ''rate_limited'' 300,
      r\<lparr>requests := filter (\<lambda>u. t - u < RATE_LIMIT_WINDOW) (requests r), blocked := True,
        blockedUntil := Some (t + SecurityConfig_BLOCK_DURATION)\<rparr>)"
  using assms unfolding checkLimit_def Let_def inWindow_def
  by (simp add: ceilSeconds_def SecurityConfig_BLOCK_DURATION_def)

lemma checkLimit_while_blocked:
  assumes "blocked r" and "blockedUntil r = Some b" and "now < b"
  shows "checkLimit now r = (Denied ''blocked'' (ceilSeconds (b - now)), r)"
  using assms unfolding checkLimit_def Let_def by simp

lemma checks_while_blocked:
  assumes "blocked r" and "blockedUntil r = Some b" and "\<forall>u\<in>set us. u < b"
  shows "snd (checks us r) = r \<and> (\<forall>res\<in>set (fst (checks us r)). \<not> allowed res)"
  using assms(3)
proof (induction us)
  case Nil
  then show ?case by simp
next
  case (Cons u us)
  then have "u < b" by simp
  from checkLimit_while_blocked [OF assms(1,2) this] Cons show ?case
    by (cases "checks us r") auto
qed

lemma checkLimit_after_block:
  assumes "blocked r" and "blockedUntil r = Some b" and "b \<le> now"
  shows "checkLimit now r =
     (Allowed (int MAX_REQUESTS_PER_WINDOW - 1), \<lparr>requests = [now], blocked = False, blockedUntil = None\<rparr>)"
  using assms unfolding checkLimit_def Let_def
  by (simp add: MAX_REQUESTS_PER_WINDOW_def)

lemma checkLimit_fresh:
  "checkLimit now RateLimiter =
     (Allowed (int MAX_REQUESTS_PER_WINDOW - 1), \<lparr>requests = [now], blocked = False, blockedUntil = None\<rparr>)"
  unfolding checkLimit_def Let_def
  by (simp add: MAX_REQUESTS_PER_WINDOW_def RateLimiter_def)


text \<open>
  C2. Let \<open>MAX_REQUESTS_PER_WINDOW\<close> checks, made at the times \<open>ts\<close>, all be allowed, and
  let the next check, at time \<open>t\<close>, fall into the same window (no check of \<open>ts\<close> is later
  than \<open>t\<close> or a whole window before it). Then that check is refused with
  \<^verbatim>\<open>retryAfter\<close> equal to \<^verbatim>\<open>BLOCK_DURATION / 1000\<close>; every check at a time \<open>us\<close> before
  the block has run out is refused as well; and the first check at or after the expiry
  is allowed in a window that holds this request alone, with what a limiter that was
  never used answers. The limiter counts the allowed check itself, so the remaining quota
  it reports is \<open>MAX_REQUESTS_PER_WINDOW - 1\<close>.
\<close>

theorem window_exhausted_then_blocked:
  assumes n: "length ts = MAX_REQUESTS_PER_WINDOW"
      and w: "\<forall>u\<in>set ts. u \<le> t \<and> t - u < RATE_LIMIT_WINDOW"
      and ok: "\<forall>res\<in>set (fst (checks ts r0)). allowed res"
      and before: "\<forall>u\<in>set us. u < t + SecurityConfig_BLOCK_DURATION"
      and after: "t + SecurityConfig_BLOCK_DURATION \<le> t'"
  shows "fst (checkLimit t (snd (checks ts r0)))
           = Denied ''rate_limited'' (SecurityConfig_BLOCK_DURATION div 1000)
       \<and> (\<forall>res\<in>set (fst (checks us (snd (checkLimit t (snd (checks ts r0)))))). \<not> allowed res)
       \<and> checkLimit t' (snd (checks us (snd (checkLimit t (snd (checks ts r0))))))
           = (Allowed (int MAX_REQUESTS_PER_WINDOW - 1),
              \<lparr>requests = [t'], blocked = False, blockedUntil = None\<rparr>)
       \<and> checkLimit t' (snd (checks us (snd (checkLimit t (snd (checks ts r0))))))
           = checkLimit t' RateLimiter"
proof -
  define r where "r = snd (checks ts r0)"
  define r' where "r' = snd (checkLimit t r)"
  have "(0::nat) = 0 \<or> (\<not> blocked r0 \<and> 0 \<le> inWindow t r0)" by simp
  from checks_allowed_run [OF w ok this] n
  have full: "\<not> blocked r" "MAX_REQUESTS_PER_WINDOW \<le> inWindow t r"
    by (simp_all add: r_def MAX_REQUESTS_PER_WINDOW_def)
  note c = checkLimit_full [OF full]
  have b: "blocked r'" "blockedUntil r' = Some (t + SecurityConfig_BLOCK_DURATION)"
    by (simp_all add: r'_def c)
  note wb = checks_while_blocked [OF b before]
  have a: "checkLimit t' (snd (checks us r')) =
     (Allowed (int MAX_REQUESTS_PER_WINDOW - 1), \<lparr>requests = [t'], blocked = False, blockedUntil = None\<rparr>)"
    using checkLimit_after_block [OF b after] wb by simp
  show ?thesis
    unfolding r_def [symmetric] r'_def [symmetric]
    using c wb a by (simp add: checkLimit_fresh SecurityConfig_BLOCK_DURATION_def)
qed

text \<open>
  Thirty checks, one each second, then a check at 40 s, three more while the block lasts
  and one at its expiry.
\<close>

theorem window_exhausted_then_blocked_witness:
  "fst (checkLimit 40000 (snd (checks [0, 1000, 2000, 3000, 4000, 5000, 6000, 7000, 8000, 9000, 10000, 11000, 12000, 13000, 14000, 15000, 16000, 17000, 18000, 19000, 20000, 21000, 22000, 23000, 24000, 25000, 26000, 27000, 28000, 29000] RateLimiter)))
     = Denied ''rate_limited'' 300
   \<and> fst (checks [41000, 200000, 339999]
        (snd (checkLimit 40000 (snd (checks [0, 1000, 2000, 3000, 4000, 5000, 6000, 7000, 8000, 9000, 10000, 11000, 12000, 13000, 14000, 15000, 16000, 17000, 18000, 19000, 20000, 21000, 22000, 23000, 24000, 25000, 26000, 27000, 28000, 29000] RateLimiter)))))
     = [Denied ''blocked'' 299, Denied ''blocked'' 140, Denied ''blocked'' 1]
   \<and> checkLimit 340000
        (snd (checks [41000, 200000, 339999]
           (snd (checkLimit 40000 (snd (checks [0, 1000, 2000, 3000, 4000, 5000, 6000, 7000, 8000, 9000, 10000, 11000, 12000, 13000, 14000, 15000, 16000, 17000, 18000, 19000, 20000, 21000, 22000, 23000, 24000, 25000, 26000, 27000, 28000, 29000] RateLimiter))))))
     = (Allowed 29, \<lparr>requests = [340000], blocked = False, blockedUntil = None\<rparr>)"
proof -
  have n: "length [0, 1000, 2000, 3000, 4000, 5000, 6000, 7000, 8000, 9000, 10000, 11000, 12000, 13000, 14000, 15000, 16000, 17000, 18000, 19000, 20000, 21000, 22000, 23000, 24000, 25000, 26000, 27000, 28000, 29000 :: int] = MAX_REQUESTS_PER_WINDOW"
    by (simp add: MAX_REQUESTS_PER_WINDOW_def)
  have w: "\<forall>u\<in>set [0, 1000, 2000, 3000, 4000, 5000, 6000, 7000, 8000, 9000, 10000, 11000, 12000, 13000, 14000, 15000, 16000, 17000, 18000, 19000, 20000, 21000, 22000, 23000, 24000, 25000, 26000, 27000, 28000, 29000 :: int]. u \<le> 40000 \<and> 40000 - u < RATE_LIMIT_WINDOW"
    by (simp add: RATE_LIMIT_WINDOW_def)
  have ok: "\<forall>res\<in>set (fst (checks [0, 1000, 2000, 3000, 4000, 5000, 6000, 7000, 8000, 9000, 10000, 11000, 12000, 13000, 14000, 15000, 16000, 17000, 18000, 19000, 20000, 21000, 22000, 23000, 24000, 25000, 26000, 27000, 28000, 29000] RateLimiter)). allowed res"
    by code_simp
  have before: "\<forall>u\<in>set [41000, 200000, 339999 :: int]. u < 40000 + SecurityConfig_BLOCK_DURATION"
    by (simp add: SecurityConfig_BLOCK_DURATION_def)
  have after: "40000 + SecurityConfig_BLOCK_DURATION \<le> (340000 :: int)"
    by (simp add: SecurityConfig_BLOCK_DURATION_def)
  have during: "fst (checks [41000, 200000, 339999]
        (snd (checkLimit 40000 (snd (checks [0, 1000, 2000, 3000, 4000, 5000, 6000, 7000, 8000, 9000, 10000, 11000, 12000, 13000, 14000, 15000, 16000, 17000, 18000, 19000, 20000, 21000, 22000, 23000, 24000, 25000, 26000, 27000, 28000, 29000] RateLimiter)))))
     = [Denied ''blocked'' 299, Denied ''blocked'' 140, Denied ''blocked'' 1]"
    by code_simp
  show ?thesis
    using window_exhausted_then_blocked [OF n w ok before after] during
    by (simp add: SecurityConfig_BLOCK_DURATION_def MAX_REQUESTS_PER_WINDOW_def)
qed

section \<open>Properties of the security status\<close>

lemma slice_last:
  assumes "0 < k"
  shows "slice (- int k) xs = drop (length xs - k) xs"
proof -
  have "nat (max (int (length xs) - int k) 0) = length xs - k" by simp
  then show ?thesis
    using assms unfolding slice_def Let_def by simp
qed

lemma getRecentLogs_take:
  assumes "0 < k"
  shows "getRecentLogs (int k) logs = take k (rev logs)"
proof -
  have "rev (drop (length logs - k) logs) = take (length logs - (length logs - k)) (rev logs)"
    by (rule rev_drop)
  also have "\<dots> = take k (rev logs)"
    by (cases "k \<le> length logs") simp_all
  finally show ?thesis
    by (simp add: getRecentLogs_def slice_last [OF assms])
qed

text \<open>
  C7. Whatever the request log holds, the status endpoint reports \<^verbatim>\<open>'warning'\<close> exactly
  when more than five of the twenty entries logged last (all of them when the log is
  shorter) have status code 403 or 429, and \<^verbatim>\<open>'secure'\<close> otherwise.
\<close>

theorem status_warning_iff:
  "(securityStatus logs = ''warning'')
     = (5 < length (filter (\<lambda>e. statusCode e = 403 \<or> statusCode e = 429) (take 20 (rev logs))))
   \<and> (securityStatus logs = ''secure'')
     = (\<not> 5 < length (filter (\<lambda>e. statusCode e = 403 \<or> statusCode e = 429) (take 20 (rev logs))))"
proof -
  have "getRecentLogs 20 logs = take 20 (rev logs)"
    using getRecentLogs_take [of 20 logs] by simp
  then show ?thesis
    by (simp add: securityStatus_def suspiciousCount_def)
qed

text \<open>The same in terms of the twenty entries at the end of the log.\<close>

lemma status_of_last_twenty:
  assumes "length recent = 20"
  shows "securityStatus (older @ recent)
       = (if 5 < length (filter (\<lambda>e. statusCode e = 403 \<or> statusCode e = 429) recent)
          then ''warning'' else ''secure'')"
proof -
  have "getRecentLogs 20 (older @ recent) = take 20 (rev (older @ recent))"
    using getRecentLogs_take [of 20 "older @ recent"] by simp
  also have "\<dots> = rev recent" using assms by simp
  finally have "suspiciousCount (older @ recent)
      = length (filter (\<lambda>e. statusCode e = 403 \<or> statusCode e = 429) (rev recent))"
    by (simp add: suspiciousCount_def)
  also have "\<dots> = length (filter (\<lambda>e. statusCode e = 403 \<or> statusCode e = 429) recent)"
    by (simp add: rev_filter [symmetric])
  finally show ?thesis by (simp add: securityStatus_def)
qed

section \<open>Properties of the analytics store\<close>

subsection \<open>Date keys\<close>

lemma digit_less: "a < 10 \<Longrightarrow> b < 10 \<Longrightarrow> (digit a < digit b) = (a < b)"
  by (simp add: digit_def less_char_def)

lemma digit_eq: "a < 10 \<Longrightarrow> b < 10 \<Longrightarrow> (digit a = digit b) = (a = b)"
proof -
  assume a: "a < 10" and b: "b < 10"
  have "of_char (digit a) = (48 + a)" "of_char (digit b) = (48 + b)"
    using a b by (simp_all add: digit_def)
  then show ?thesis by (metis add_left_cancel)
qed


lemma split_less:
  fixes a b k :: nat
  assumes "0 < k"
  shows "(a div k < b div k \<or> a div k = b div k \<and> a mod k < b mod k) = (a < b)"
proof
  assume h: "a div k < b div k \<or> a div k = b div k \<and> a mod k < b mod k"
  show "a < b"
  proof (rule ccontr)
    assume "\<not> a < b"
    then have le: "b \<le> a" by simp
    then have "b div k \<le> a div k" by (rule div_le_mono)
    with h have e: "a div k = b div k" and m: "a mod k < b mod k" by auto
    have "a = k * (a div k) + a mod k" "b = k * (b div k) + b mod k" by simp_all
    with e m have "a < b" by (metis add_less_cancel_left)
    with le show False by simp
  qed
next
  assume l: "a < b"
  then have d: "a div k \<le> b div k" by (simp add: div_le_mono)
  show "a div k < b div k \<or> a div k = b div k \<and> a mod k < b mod k"
  proof (cases "a div k = b div k")
    case True
    have "a = k * (a div k) + a mod k" "b = k * (b div k) + b mod k" by simp_all
    with True l have "a mod k < b mod k" by (metis add_less_cancel_left)
    with True show ?thesis by simp
  next
    case False
    with d show ?thesis by simp
  qed
qed

lemma split_eq:
  fixes a b k :: nat
  shows "(a div k = b div k \<and> a mod k = b mod k) = (a = b)"
  by (metis div_mult_mod_eq)

lemma pad2_less:
  assumes "a < 100" and "b < 100"
  shows "(pad2 a < pad2 b) = (a < b)"
proof -
  have d: "a div 10 < 10" "b div 10 < 10" "a mod 10 < 10" "b mod 10 < 10"
    using assms by simp_all
  have "(pad2 a < pad2 b) = (a div 10 < b div 10 \<or> a div 10 = b div 10 \<and> a mod 10 < b mod 10)"
    by (simp add: pad2_def digit_less digit_eq d)
  also have "\<dots> = (a < b)" by (rule split_less) simp
  finally show ?thesis .
qed

lemma pad2_eq:
  assumes "a < 100" and "b < 100"
  shows "(pad2 a = pad2 b) = (a = b)"
proof -
  have d: "a div 10 < 10" "b div 10 < 10" "a mod 10 < 10" "b mod 10 < 10"
    using assms by simp_all
  have "(pad2 a = pad2 b) = (a div 10 = b div 10 \<and> a mod 10 = b mod 10)"
    by (simp add: pad2_def digit_eq d)
  also have "\<dots> = (a = b)" by (rule split_eq)
  finally show ?thesis .
qed

lemma append_less_same_length:
  fixes xs :: "string"
  assumes "length xs = length xs'"
  shows "(xs @ ys < xs' @ ys') = (xs < xs' \<or> xs = xs' \<and> ys < ys')"
  using assms
proof (induction xs xs' rule: list_induct2)
  case Nil
  then show ?case by simp
next
  case (Cons x xs y ys)
  then show ?case by auto
qed

lemma pad2_append_less:
  assumes "a < 100" and "b < 100"
  shows "(pad2 a @ s < pad2 b @ s') = (a < b \<or> a = b \<and> s < s')"
proof -
  have "length (pad2 a) = length (pad2 b)" by (simp add: pad2_def)
  from append_less_same_length [OF this] show ?thesis
    by (simp add: pad2_less [OF assms] pad2_eq [OF assms])
qed

lemma dash_append_less: "(''-'' @ s < ''-'' @ s') = (s < s')"
  by simp

text \<open>The keys that \<^verbatim>\<open>getTodayKey\<close> writes are ordered as the dates are.\<close>

lemma getTodayKey_less:
  assumes "y < 10000" "y' < 10000" "m < 100" "m' < 100" "d < 100" "d' < 100"
  shows "(getTodayKey y m d < getTodayKey y' m' d')
       = (y < y' \<or> y = y' \<and> (m < m' \<or> m = m' \<and> d < d'))"
proof -
  have b: "y div 100 < 100" "y' div 100 < 100" "y mod 100 < 100" "y' mod 100 < 100"
    using assms by simp_all
  have dd: "(pad2 d < pad2 d') = (d < d')" using assms by (simp add: pad2_less)
  have "(getTodayKey y m d < getTodayKey y' m' d')
      = (y div 100 < y' div 100 \<or> y div 100 = y' div 100 \<and>
          (y mod 100 < y' mod 100 \<or> y mod 100 = y' mod 100 \<and>
            (m < m' \<or> m = m' \<and> d < d')))"
    unfolding getTodayKey_def
    by (simp only: pad2_append_less [OF b(1,2)] pad2_append_less [OF b(3,4)]
        pad2_append_less [OF assms(3,4)] dash_append_less dd)
  also have "\<dots> = (y < y' \<or> y = y' \<and> (m < m' \<or> m = m' \<and> d < d'))"
    using split_less [of 100 y y'] split_eq [of y 100 y'] by auto
  finally show ?thesis .
qed

subsection \<open>The retention sweep\<close>

lemma prune_fold:
  "prune ds stats = fold AList.delete (take (length ds - maxDays) ds) stats"
proof (induction ds arbitrary: stats)
  case Nil
  then show ?case by simp
next
  case (Cons d ds)
  show ?case
  proof (cases "maxDays < length (d # ds)")
    case True
    then have "length (d # ds) - maxDays = Suc (length ds - maxDays)" by simp
    then show ?thesis using True Cons.IH by simp
  next
    case False
    then show ?thesis by simp
  qed
qed

lemma fold_delete_filter:
  "fold AList.delete ks stats = filter (\<lambda>(k, v). k \<notin> set ks) stats"
proof (induction ks arbitrary: stats)
  case Nil
  then show ?case by simp
next
  case (Cons k ks)
  have "AList.delete k stats = filter (\<lambda>(k', v). k \<noteq> k') stats"
    by (simp add: AList.delete_eq)
  then show ?case
    using Cons.IH [of "AList.delete k stats"]
    by (auto intro: filter_cong)
qed

lemma cleanupOldData_document:
  "cleanupOldData clock (Document data) =
     (None, saveAnalytics ((case uniqueVisitors data of
                  VisitorArray vs \<Rightarrow> data\<lparr>uniqueVisitors := VisitorSet (newSet vs)\<rparr>
                | _ \<Rightarrow> data)\<lparr>dailyStats := prune (sort (map fst (dailyStats data))) (dailyStats data)\<rparr>))"
  by (cases "uniqueVisitors data")
     (simp_all add: cleanupOldData_def getAnalytics_def readDocument_def)

lemma storedDays_save: "storedDays (saveAnalytics d) = dailyStats d"
  by (cases "uniqueVisitors d") (simp_all add: storedDays_def saveAnalytics_def throughJSON_def)

lemma storedDays_cleanup:
  "storedDays (snd (cleanupOldData clock (Document data)))
     = prune (sort (map fst (dailyStats data))) (dailyStats data)"
  by (cases "uniqueVisitors data") (simp_all add: cleanupOldData_document storedDays_save)

lemma sorted_split_less:
  fixes ks :: "string list"
  assumes s: "sorted ks" and d: "distinct ks"
  shows "\<forall>a\<in>set (take n ks). \<forall>b\<in>set (drop n ks). a < b"
proof (intro ballI)
  fix a b assume a: "a \<in> set (take n ks)" and b: "b \<in> set (drop n ks)"
  have "sorted (take n ks @ drop n ks)" using s by simp
  then have le: "a \<le> b" unfolding sorted_append using a b by blast
  have "distinct (take n ks @ drop n ks)" using d by simp
  then have "a \<noteq> b" unfolding distinct_append using a b by blast
  with le show "a < b" by simp
qed

lemma kept_filter:
  fixes stats :: "(string \<times> dailyStat) list"
  assumes d: "distinct (map fst stats)"
  defines "keys \<equiv> sort (map fst stats)"
  shows "filter (\<lambda>(k, v). k \<notin> set (take n keys)) stats
       = filter (\<lambda>(k, v). k \<in> set (drop n keys)) stats"
proof (rule filter_cong [OF refl])
  fix x assume x: "x \<in> set stats"
  have dk: "distinct keys" using d by (simp add: keys_def)
  have "distinct (take n keys @ drop n keys)" using dk by simp
  then have disj: "set (take n keys) \<inter> set (drop n keys) = {}"
    unfolding distinct_append by blast
  have "set (take n keys) \<union> set (drop n keys) = set keys"
    by (metis append_take_drop_id set_append)
  moreover have "fst x \<in> set keys" using x by (simp add: keys_def)
  ultimately have "fst x \<notin> set (take n keys) \<longleftrightarrow> fst x \<in> set (drop n keys)"
    using disj by blast
  then show "(case x of (k, v) \<Rightarrow> k \<notin> set (take n keys))
           = (case x of (k, v) \<Rightarrow> k \<in> set (drop n keys))"
    by (cases x) simp
qed

lemma kept_keys:
  fixes stats :: "(string \<times> dailyStat) list"
  assumes d: "distinct (map fst stats)"
  defines "keys \<equiv> sort (map fst stats)"
  shows "set (map fst (filter (\<lambda>(k, v). k \<in> set (drop n keys)) stats)) = set (drop n keys)"
proof -
  have "set (drop n keys) \<subseteq> set keys" by (rule set_drop_subset)
  then have "set (drop n keys) \<subseteq> fst ` set stats" by (simp add: keys_def)
  then show ?thesis by force
qed

lemma kept_length:
  fixes stats :: "(string \<times> dailyStat) list"
  assumes d: "distinct (map fst stats)"
  defines "keys \<equiv> sort (map fst stats)"
  shows "length (filter (\<lambda>(k, v). k \<in> set (drop n keys)) stats) = length stats - n"
proof -
  let ?kept = "filter (\<lambda>(k, v). k \<in> set (drop n keys)) stats"
  have "map fst ?kept = filter (\<lambda>k. k \<in> set (drop n keys)) (map fst stats)"
    by (induction stats) auto
  then have dist: "distinct (map fst ?kept)" using d by simp
  have dk: "distinct (drop n keys)" using d by (simp add: keys_def)
  have "length ?kept = length (map fst ?kept)" by simp
  also have "\<dots> = card (set (map fst ?kept))" using distinct_card [OF dist] by simp
  also have "\<dots> = card (set (drop n keys))"
    using kept_keys [OF d, of n] by (simp add: keys_def)
  also have "\<dots> = length (drop n keys)" using dk by (simp add: distinct_card)
  also have "\<dots> = length stats - n" by (simp add: keys_def)
  finally show ?thesis .
qed

text \<open>
  C8. When the file holds a document with more than thirty buckets (the keys of an
  object are distinct), one run of \<^verbatim>\<open>cleanupOldData\<close> succeeds and deletes the keys that
  come first in the sorted order, in that order, as many as there are buckets above
  thirty. What remains are the buckets of the thirty greatest keys, each with the content
  it had, in the order they had; every deleted key is smaller than every key that
  remains. The contents play no part. The keys are compared as strings, which for the
  keys that \<^verbatim>\<open>getTodayKey\<close> writes is the order of the dates (\<open>getTodayKey_less\<close>): the
  thirty that remain are the most recent ones.
\<close>

theorem retention_keeps_latest:
  assumes d: "distinct (map fst (dailyStats data))"
      and n: "maxDays < length (dailyStats data)"
  shows "fst (cleanupOldData clock (Document data)) = None
       \<and> storedDays (snd (cleanupOldData clock (Document data)))
           = fold AList.delete
               (take (length (dailyStats data) - maxDays) (sort (map fst (dailyStats data))))
               (dailyStats data)
       \<and> storedDays (snd (cleanupOldData clock (Document data)))
           = filter (\<lambda>(k, v). k \<in> set (drop (length (dailyStats data) - maxDays)
                                              (sort (map fst (dailyStats data)))))
               (dailyStats data)
       \<and> length (storedDays (snd (cleanupOldData clock (Document data)))) = 30
       \<and> (\<forall>old\<in>set (take (length (dailyStats data) - maxDays) (sort (map fst (dailyStats data)))).
            \<forall>new\<in>set (map fst (storedDays (snd (cleanupOldData clock (Document data))))).
              old < new)"
proof -
  define keys where "keys = sort (map fst (dailyStats data))"
  define k where "k = length (dailyStats data) - maxDays"
  have lk: "length keys = length (dailyStats data)" by (simp add: keys_def)
  have st: "storedDays (snd (cleanupOldData clock (Document data)))
              = fold AList.delete (take k keys) (dailyStats data)"
    by (simp add: storedDays_cleanup prune_fold keys_def k_def)
  have fl: "fold AList.delete (take k keys) (dailyStats data)
              = filter (\<lambda>(k', v). k' \<in> set (drop k keys)) (dailyStats data)"
    unfolding keys_def by (simp add: fold_delete_filter kept_filter [OF d])
  have len: "length (filter (\<lambda>(k', v). k' \<in> set (drop k keys)) (dailyStats data)) = 30"
    unfolding keys_def using kept_length [OF d, of k] n by (simp add: k_def maxDays_def)
  have ks: "set (map fst (filter (\<lambda>(k', v). k' \<in> set (drop k keys)) (dailyStats data)))
              = set (drop k keys)"
    unfolding keys_def by (rule kept_keys [OF d])
  have "sorted keys" "distinct keys" using d by (simp_all add: keys_def)
  from sorted_split_less [OF this, of k]
  have lt: "\<forall>a\<in>set (take k keys). \<forall>b\<in>set (drop k keys). a < b" .
  have e: "fst (cleanupOldData clock (Document data)) = None"
    by (simp add: cleanupOldData_document)
  show ?thesis
    unfolding keys_def [symmetric] k_def [symmetric]
    using e st fl len ks lt by simp
qed

text \<open>In the example store the five first days of March go, page views or not.\<close>

theorem retention_keeps_latest_witness:
  "map fst (storedDays (snd (cleanupOldData ''2024-04-05T00:00:00.000Z'' (Document exampleStore))))
   = [''2024-04-01'', ''2024-04-02'', ''2024-04-03'', ''2024-04-04'', ''2024-03-31'',
      ''2024-03-30'', ''2024-03-29'', ''2024-03-28'', ''2024-03-27'', ''2024-03-26'',
      ''2024-03-25'', ''2024-03-24'', ''2024-03-23'', ''2024-03-22'', ''2024-03-21'',
      ''2024-03-20'', ''2024-03-19'', ''2024-03-18'', ''2024-03-17'', ''2024-03-16'',
      ''2024-03-15'', ''2024-03-14'', ''2024-03-13'', ''2024-03-12'', ''2024-03-11'',
      ''2024-03-10'', ''2024-03-09'', ''2024-03-08'', ''2024-03-07'', ''2024-03-06'']"
proof -
  have d: "distinct (map fst (dailyStats exampleStore))"
    by code_simp
  have n: "maxDays < length (dailyStats exampleStore)"
    by code_simp
  have s: "map fst (fold AList.delete
               (take (length (dailyStats exampleStore) - maxDays)
                  (sort (map fst (dailyStats exampleStore))))
               (dailyStats exampleStore))
   = [''2024-04-01'', ''2024-04-02'', ''2024-04-03'', ''2024-04-04'', ''2024-03-31'',
      ''2024-03-30'', ''2024-03-29'', ''2024-03-28'', ''2024-03-27'', ''2024-03-26'',
      ''2024-03-25'', ''2024-03-24'', ''2024-03-23'', ''2024-03-22'', ''2024-03-21'',
      ''2024-03-20'', ''2024-03-19'', ''2024-03-18'', ''2024-03-17'', ''2024-03-16'',
      ''2024-03-15'', ''2024-03-14'', ''2024-03-13'', ''2024-03-12'', ''2024-03-11'',
      ''2024-03-10'', ''2024-03-09'', ''2024-03-08'', ''2024-03-07'', ''2024-03-06'']"
    by code_simp
  have t: "storedDays (snd (cleanupOldData ''2024-04-05T00:00:00.000Z'' (Document exampleStore)))
      = fold AList.delete
               (take (length (dailyStats exampleStore) - maxDays)
                  (sort (map fst (dailyStats exampleStore))))
               (dailyStats exampleStore)"
    using retention_keeps_latest [OF d n, of "''2024-04-05T00:00:00.000Z''"]
    by (elim conjE)
  show ?thesis
    unfolding t by (rule s)
qed

subsection \<open>Reading a file that is not JSON\<close>

text \<open>When the file is absent, \<^verbatim>\<open>getAnalytics\<close> creates it and returns the empty store.\<close>

lemma getAnalytics_no_file:
  "getAnalytics clock NoFile =
     (Inr ((initialData clock)\<lparr>uniqueVisitors := VisitorArray []\<rparr>),
      Document ((initialData clock)\<lparr>uniqueVisitors := VisitorArray []\<rparr>))"
  by (simp add: getAnalytics_def readDocument_def initAnalyticsFile_def saveAnalytics_def
      initialData_def throughJSON_def)

text \<open>
  C5 at a failing input: the file exists and its text is not JSON. The \<^verbatim>\<open>catch\<close> block
  calls \<^verbatim>\<open>initAnalyticsFile\<close>, which writes the empty store only when the file does not
  exist; the file is left as it is, the second \<^verbatim>\<open>JSON.parse\<close> throws again, and the
  exception leaves \<^verbatim>\<open>getAnalytics\<close> and with it the handler of \<^verbatim>\<open>/track\<close> and the
  retention sweep. The specification says that the store is reinitialised and returned.
\<close>

theorem getAnalytics_unparsable_throws:
  "getAnalytics clock Unparsable = (Inl SyntaxError, Unparsable)
   \<and> track clock todayKey visitorId ev Unparsable = (Some SyntaxError, Unparsable)
   \<and> cleanupOldData clock Unparsable = (Some SyntaxError, Unparsable)"
  by (simp add: getAnalytics_def readDocument_def initAnalyticsFile_def track_def
      cleanupOldData_def)

subsection \<open>Export and import\<close>

text \<open>
  What the round trip does to a document: the buckets, the tool counters and the totals
  come back; an array of visitors comes back as \<^verbatim>\<open>{}\<close>, because \<^verbatim>\<open>getAnalytics\<close> has
  made it a \<^verbatim>\<open>Set\<close> and \<^verbatim>\<open>res.json\<close> writes a \<^verbatim>\<open>Set\<close> as \<^verbatim>\<open>{}\<close>.
\<close>

lemma roundTrip_document:
  "roundTrip clock (Document d) =
     Document (d\<lparr>uniqueVisitors :=
                  (case uniqueVisitors d of
                     VisitorArray vs \<Rightarrow> EmptyObject
                   | VisitorSet vs \<Rightarrow> EmptyObject
                   | v \<Rightarrow> v)\<rparr>)"
  by (cases "uniqueVisitors d")
     (simp_all add: roundTrip_def exportAnalytics_def importAnalytics_def getAnalytics_def
        readDocument_def saveAnalytics_def throughJSON_def)

text \<open>After the round trip of any document the snapshot reports no unique visitor.\<close>

lemma roundTrip_reports_no_visitors:
  "reportedVisitors clock todayKey week (roundTrip clock' (Document d)) = Inr 0"
  by (cases "uniqueVisitors d")
     (simp_all add: roundTrip_document reportedVisitors_def getSnapshot_def getAnalytics_def
        readDocument_def visitorCount_def)

text \<open>
  C4 at a failing input. A new store records one \<^verbatim>\<open>session_start\<close>; the snapshot reports
  one unique visitor. After the store is exported and the exported document imported the
  snapshot reports none, and the file holds \<^verbatim>\<open>{}\<close> in place of the visitors.
  \<^verbatim>\<open>saveAnalytics\<close> turns the \<^verbatim>\<open>Set\<close> into an array before it writes; the export
  does not. The specification says that the snapshot is the same after the round trip.
\<close>

theorem export_import_loses_visitors:
  "reportedVisitors ''2024-03-01T12:00:00.000Z'' ''2024-03-01'' [''2024-03-01'']
     (snd (track ''2024-03-01T10:00:00.000Z'' ''2024-03-01'' ''visitor-1'' SessionStart
        (initAnalyticsFile ''2024-03-01T09:00:00.000Z'' NoFile)))
     = Inr 1
   \<and> reportedVisitors ''2024-03-01T12:00:00.000Z'' ''2024-03-01'' [''2024-03-01'']
       (roundTrip ''2024-03-01T11:00:00.000Z''
          (snd (track ''2024-03-01T10:00:00.000Z'' ''2024-03-01'' ''visitor-1'' SessionStart
             (initAnalyticsFile ''2024-03-01T09:00:00.000Z'' NoFile))))
     = Inr 0
   \<and> roundTrip ''2024-03-01T11:00:00.000Z''
       (snd (track ''2024-03-01T10:00:00.000Z'' ''2024-03-01'' ''visitor-1'' SessionStart
          (initAnalyticsFile ''2024-03-01T09:00:00.000Z'' NoFile)))
     = Document
         \<lparr>created = ''2024-03-01T09:00:00.000Z'',
          dailyStats = [(''2024-03-01'', emptyDay\<lparr>dayVisitors := 1\<rparr>)],
          toolUsage = [], totalPageViews = 0, totalToolUses = 0,
          uniqueVisitors = EmptyObject\<rparr>"
  by code_simp

end
